theory Spec2Isabelle
  imports Complex_Main
begin

section \<open>The video plugin of gazebo\_plugins: playback state machine and frame hand-off\<close>

text \<open>
  This theory embeds \<^verbatim>\<open>gazebo_plugins/src/gazebo_ros_video.cpp\<close>: the command handlers
  (\<^verbatim>\<open>processImage\<close>, \<^verbatim>\<open>processImagePath\<close>, \<^verbatim>\<open>processVideoPath\<close>, \<^verbatim>\<open>processVideoSeek\<close>,
  \<^verbatim>\<open>processVideoPause\<close>), the frame slot (\<^verbatim>\<open>updateImage\<close>, \<^verbatim>\<open>clearImage\<close>), the render
  sample (\<^verbatim>\<open>UpdateChild\<close>, \<^verbatim>\<open>VideoVisual::render\<close>) and one iteration of the loop of
  \<^verbatim>\<open>VideoThread\<close>. Member names lose their trailing underscore.
\<close>

subsection \<open>Images\<close>

text \<open>
  A \<^verbatim>\<open>cv::Mat\<close> is kept as its header (rows, columns, channels) and the picture it shows.
  The pixel values themselves are abstract: \<open>Zeros\<close> is the content of
  \<^verbatim>\<open>cv::Mat::zeros\<close>, \<open>Picture n\<close> is the n-th picture of the outside world (a decoded
  video frame, an image file, a pushed message). Resizing and colour conversion change
  the header and keep the picture.
\<close>

datatype picture = Zeros | Picture nat

record Mat =
  rows :: nat
  cols :: nat
  channels :: nat
  pixels :: picture

definition Mat_new :: Mat where
  \<comment> \<open>\<^verbatim>\<open>cv::Mat m;\<close>: the empty matrix\<close>
  "Mat_new = \<lparr>rows = 0, cols = 0, channels = 1, pixels = Zeros\<rparr>"

definition Mat_empty :: "Mat \<Rightarrow> bool" where
  \<comment> \<open>\<^verbatim>\<open>m.empty()\<close>: no element\<close>
  "Mat_empty m = (rows m = 0 \<or> cols m = 0)"

definition cv_zeros :: "nat \<Rightarrow> nat \<Rightarrow> Mat" where
  \<comment> \<open>\<^verbatim>\<open>cv::Mat::zeros(h, w, CV_8UC4)\<close>\<close>
  "cv_zeros h w = \<lparr>rows = h, cols = w, channels = 4, pixels = Zeros\<rparr>"

definition cv_cvtColor_BGR2BGRA :: "Mat \<Rightarrow> Mat" where
  \<comment> \<open>\<^verbatim>\<open>cv::cvtColor(src, dst, CV_BGR2BGRA, 4)\<close>: same size, four channels\<close>
  "cv_cvtColor_BGR2BGRA m = m\<lparr>channels := 4\<rparr>"

definition cv_resize :: "Mat \<Rightarrow> nat \<Rightarrow> nat \<Rightarrow> Mat" where
  \<comment> \<open>\<^verbatim>\<open>cv::resize(src, dst, cv::Size(w, h))\<close>: \<open>dst\<close> has \<open>h\<close> rows and \<open>w\<close> columns\<close>
  "cv_resize m w h = m\<lparr>rows := h, cols := w\<rparr>"

definition toCvCopy_bgra8 :: "Mat \<Rightarrow> Mat" where
  \<comment> \<open>\<^verbatim>\<open>cv_bridge::toCvCopy(msg, "bgra8")\<close>: the message's image with four channels\<close>
  "toCvCopy_bgra8 m = m\<lparr>channels := 4\<rparr>"

subsection \<open>Double arithmetic\<close>

text \<open>
  The seek position is a \<^verbatim>\<open>double\<close>, and lines 542 and 567 to 568 multiply it by a size
  that has been converted to \<^verbatim>\<open>double\<close>; both the conversion and the product round. A
  finite \<^verbatim>\<open>double\<close> is a real number \<open>m * 2 ^ e\<close> with an integer \<open>m\<close> below \<open>2 ^ 53\<close> in
  magnitude and \<open>e\<close> from -1074 to 971 (IEEE 754 binary64). \<open>double_round\<close> rounds a real
  number to the nearest such value, ties to the even \<open>m\<close>: below \<open>2 ^ 53\<close> the grid is
  \<open>2 ^ - k\<close> for the largest \<open>k\<close> up to 1074 that keeps \<open>m\<close> below \<open>2 ^ 53\<close>; from \<open>2 ^ 53\<close> on
  it is \<open>2 ^ j\<close> for the smallest such \<open>j\<close> (\<open>2 ^ 53\<close> is 9007199254740992). Overflow to
  infinity is left out: the values rounded here are sizes and their products with a
  fraction of at most 1.
\<close>

definition round_half_even :: "real \<Rightarrow> int" where
  "round_half_even x =
     (let n = \<lfloor>x\<rfloor>; r = x - of_int n
      in if r < 1 / 2 then n else if 1 / 2 < r then n + 1 else if even n then n else n + 1)"

text \<open>
  The search for the grid: \<open>scale_down n k y\<close> doubles \<open>y\<close> (at most \<open>n\<close> times) as long as
  the double stays below \<open>2 ^ 53\<close>, and returns the number of doublings made so far with
  the scaled value; \<open>scale_up\<close> halves as long as the value is \<open>2 ^ 53\<close> or more.
\<close>

fun scale_down :: "nat \<Rightarrow> nat \<Rightarrow> real \<Rightarrow> nat \<times> real" where
  "scale_down 0 k y = (k, y)"
| "scale_down (Suc n) k y =
     (if 2 * y < 9007199254740992 then scale_down n (Suc k) (2 * y) else (k, y))"

fun scale_up :: "nat \<Rightarrow> nat \<Rightarrow> real \<Rightarrow> nat \<times> real" where
  "scale_up 0 j y = (j, y)"
| "scale_up (Suc n) j y =
     (if 9007199254740992 \<le> y then scale_up n (Suc j) (y / 2) else (j, y))"

definition double_round_pos :: "real \<Rightarrow> real" where
  "double_round_pos x =
     (if x < 9007199254740992
      then (case scale_down 1074 0 x of (k, y) \<Rightarrow> of_int (round_half_even y) / 2 ^ k)
      else (case scale_up 971 0 x of (j, y) \<Rightarrow> of_int (round_half_even y) * 2 ^ j))"

definition double_round :: "real \<Rightarrow> real" where
  "double_round x =
     (if x = 0 then 0 else if 0 < x then double_round_pos x else - double_round_pos (- x))"

definition double_mul :: "real \<Rightarrow> real \<Rightarrow> real" where
  \<comment> \<open>the product of two doubles, as a double\<close>
  "double_mul a b = double_round (a * b)"

definition size_to_double :: "nat \<Rightarrow> real" where
  \<comment> \<open>the conversion of a \<^verbatim>\<open>size_t\<close> or of a count to \<^verbatim>\<open>double\<close>\<close>
  "size_to_double n = double_round (real n)"

subsection \<open>The frame source\<close>

text \<open>
  The outside world: the video file behind a path (\<open>None\<close> when it cannot be opened,
  otherwise the frames the decoder yields, in order) and the image file behind a path
  (the empty matrix when \<^verbatim>\<open>cv::imread\<close> fails).
\<close>

record world =
  video_files :: "string \<Rightarrow> Mat list option"
  image_files :: "string \<Rightarrow> Mat"

text \<open>
  Modelled from the spec: \<^verbatim>\<open>cv::VideoCapture\<close> is a capability of the OpenCV library and
  is not part of the sources. It follows section 4.4 of the specification (FrameSource):
  \<^verbatim>\<open>open\<close> (a path that cannot be opened yields a capture that is not opened), \<^verbatim>\<open>read\<close>
  of the next frame (failing at the end of the stream and on a capture that is not
  opened), the frame count (a \<^verbatim>\<open>double\<close>), and positioning on an absolute frame index,
  the position handed over (a \<^verbatim>\<open>double\<close>) being cut to an integer (floor).
\<close>

record VideoCapture =
  isOpened :: bool
  source :: "Mat list"
  pos_frames :: nat

definition cap_new :: VideoCapture where
  "cap_new = \<lparr>isOpened = False, source = [], pos_frames = 0\<rparr>"

definition cap_open :: "world \<Rightarrow> string \<Rightarrow> VideoCapture" where
  "cap_open w path =
     (case video_files w path of
        None \<Rightarrow> cap_new
      | Some fs \<Rightarrow> \<lparr>isOpened = True, source = fs, pos_frames = 0\<rparr>)"

definition cap_read :: "VideoCapture \<Rightarrow> Mat option \<times> VideoCapture" where
  "cap_read c =
     (if isOpened c \<and> pos_frames c < length (source c)
      then (Some (source c ! pos_frames c), c\<lparr>pos_frames := pos_frames c + 1\<rparr>)
      else (None, c))"

definition cap_frame_count :: "VideoCapture \<Rightarrow> real" where
  \<comment> \<open>\<^verbatim>\<open>cap.get(CV_CAP_PROP_FRAME_COUNT)\<close>: the count, as a \<^verbatim>\<open>double\<close>\<close>
  "cap_frame_count c = size_to_double (length (source c))"

definition cap_set_pos_frames :: "VideoCapture \<Rightarrow> real \<Rightarrow> VideoCapture" where
  "cap_set_pos_frames c x = c\<lparr>pos_frames := nat \<lfloor>x\<rfloor>\<rparr>"

subsection \<open>The plugin state\<close>

text \<open>
  The members of \<^verbatim>\<open>GazeboRosVideo\<close> that the handlers and the playback loop use, the
  local \<open>cap\<close> of \<^verbatim>\<open>VideoThread\<close>, which lives across iterations, and the display of
  \<^verbatim>\<open>VideoVisual\<close>: its size and the frame last copied into its texture.
  \<open>image\<close> is the shared pointer \<^verbatim>\<open>image_\<close> (\<open>None\<close> when null) and
  \<open>new_image_available\<close> its dirty flag.

  Modelled from the spec: the header that declares the members is not part of the
  sources. The cursor \<^verbatim>\<open>current_buffered_frame_\<close> is the specification's integer cursor
  into the buffer; it is a natural number here (the code assigns it 0, the integer part
  of a product that is not negative, and its successor). \<^verbatim>\<open>video_seek_position_\<close> is a
  \<^verbatim>\<open>double\<close> (\<^verbatim>\<open>processVideoSeek(double)\<close>); it is kept as the real number it denotes, and
  the products with it are rounded as doubles (\<open>double_mul\<close>). A NaN or an infinity fails
  the range tests of lines 540 and 565 as every real number outside [0, 1] does. The
  display size is positive in a running plugin and is a pair of natural numbers.
\<close>

record GazeboRosVideo =
  video_path :: string
  stop_video :: bool
  new_video_available :: bool
  video_paused :: bool
  loop_video :: bool
  buffer_all_frames_for_fast_seek :: bool
  video_seek_position :: real
  video_frames :: "Mat list"
  current_buffered_frame :: nat
  cap :: VideoCapture
  image :: "Mat option"
  new_image_available :: bool
  height :: nat
  width :: nat
  texture :: Mat

datatype error = OutOfRange nat nat | NullImage | Deadlock

subsection \<open>The frame slot and the render sample\<close>

definition updateImage :: "Mat \<Rightarrow> GazeboRosVideo \<Rightarrow> GazeboRosVideo" where
  "updateImage img s =
     (if Mat_empty img
      then s\<lparr>image := Some (cv_zeros (height s) (width s)), new_image_available := True\<rparr>
      else s\<lparr>image := Some (cv_cvtColor_BGR2BGRA img), new_image_available := True\<rparr>)"

definition clearImage :: "GazeboRosVideo \<Rightarrow> GazeboRosVideo" where
  "clearImage s = updateImage Mat_new s"

definition render :: "Mat \<Rightarrow> GazeboRosVideo \<Rightarrow> GazeboRosVideo" where
  \<comment> \<open>\<^verbatim>\<open>VideoVisual::render\<close>: fix the size if necessary, then copy into the texture\<close>
  "render img s =
     (let converted =
            (if rows img \<noteq> height s \<or> cols img \<noteq> width s
             then cv_resize img (width s) (height s) else img)
      in s\<lparr>texture := converted\<rparr>)"

definition UpdateChild :: "GazeboRosVideo \<Rightarrow> error + GazeboRosVideo" where
  "UpdateChild s =
     (if new_image_available s
      then (case image s of
              None \<Rightarrow> Inl NullImage
            | Some img \<Rightarrow> Inr ((render img s)\<lparr>new_image_available := False\<rparr>))
      else Inr (s\<lparr>new_image_available := False\<rparr>))"

subsection \<open>The command handlers\<close>

definition processImage :: "Mat \<Rightarrow> GazeboRosVideo \<Rightarrow> GazeboRosVideo" where
  "processImage msg s =
     s\<lparr>image := Some (toCvCopy_bgra8 msg), new_image_available := True, stop_video := True\<rparr>"

definition processImagePath :: "world \<Rightarrow> string \<Rightarrow> GazeboRosVideo \<Rightarrow> GazeboRosVideo" where
  "processImagePath w str s =
     (let s1 = (if str = [] then clearImage s else updateImage (image_files w str) s)
      in s1\<lparr>stop_video := True\<rparr>)"

definition processVideoPath :: "string \<Rightarrow> GazeboRosVideo \<Rightarrow> GazeboRosVideo" where
  "processVideoPath str s =
     (let s1 = s\<lparr>video_path := str\<rparr>
      in if video_path s1 = []
         then clearImage (s1\<lparr>stop_video := True, new_video_available := False\<rparr>)
         else s1\<lparr>stop_video := False, new_video_available := True\<rparr>)"

definition processVideoSeek :: "real \<Rightarrow> GazeboRosVideo \<Rightarrow> GazeboRosVideo" where
  "processVideoSeek v s = s\<lparr>video_seek_position := v\<rparr>"

definition processVideoPause :: "bool \<Rightarrow> GazeboRosVideo \<Rightarrow> GazeboRosVideo" where
  "processVideoPause v s = (if \<not> stop_video s then s\<lparr>video_paused := v\<rparr> else s)"

subsection \<open>One iteration of the playback loop\<close>

text \<open>The loop that decodes a whole source into the buffer: it runs until a read fails.\<close>

function buffer_loop ::
  "nat \<Rightarrow> nat \<Rightarrow> VideoCapture \<Rightarrow> Mat list \<Rightarrow> VideoCapture \<times> Mat list" where
  "buffer_loop h w c acc =
     (case cap_read c of
        (None, c') \<Rightarrow> (c', acc)
      | (Some new_frame, c') \<Rightarrow>
          buffer_loop h w c'
            (if \<not> Mat_empty new_frame then acc @ [cv_resize new_frame w h] else acc))"
  by pat_completeness auto
termination
  by (relation "measure (\<lambda>(h, w, c, acc). length (source c) - pos_frames c)")
     (auto simp: cap_read_def split: if_splits)

declare buffer_loop.simps [simp del]

text \<open>Lines 501 to 534: a newly set source is opened, and buffered in buffering mode.\<close>

definition VideoThread_open :: "world \<Rightarrow> GazeboRosVideo \<Rightarrow> GazeboRosVideo" where
  "VideoThread_open w s =
     (if new_video_available s \<and> video_path s \<noteq> [] then
        (let s1 = clearImage s;
             s2 = s1\<lparr>cap := cap_open w (video_path s1)\<rparr>;
             s3 = s2\<lparr>new_video_available := False\<rparr>
         in if buffer_all_frames_for_fast_seek s3 then
              (let s4 = s3\<lparr>video_frames := [], current_buffered_frame := 0\<rparr>
               in if isOpened (cap s4) then
                    (case buffer_loop (height s4) (width s4) (cap s4) (video_frames s4) of
                       (c, frames) \<Rightarrow> s4\<lparr>cap := c, video_frames := frames\<rparr>)
                  else s4)
            else s3)
      else s)"

text \<open>
  Lines 538 to 562: the buffered branch. The index into \<^verbatim>\<open>video_frames_\<close> is not
  checked by the source; reading past the end is the error \<open>OutOfRange\<close> (with the index
  and the size of the buffer).
\<close>

definition buffered_seek :: "GazeboRosVideo \<Rightarrow> GazeboRosVideo" where
  \<comment> \<open>lines 540 to 545; the size less one is converted to \<^verbatim>\<open>double\<close>, the product is a
      \<^verbatim>\<open>double\<close>, and the assignment cuts it to an integer\<close>
  "buffered_seek s =
     (if 0 \<le> video_seek_position s \<and> video_seek_position s \<le> 1
      then s\<lparr>current_buffered_frame :=
               nat \<lfloor>double_mul (size_to_double (length (video_frames s) - 1))
                      (video_seek_position s)\<rfloor>,
             video_seek_position := - 1\<rparr>
      else s)"

definition buffered_overrun :: "GazeboRosVideo \<Rightarrow> GazeboRosVideo" where
  \<comment> \<open>lines 547 to 556\<close>
  "buffered_overrun s =
     (if current_buffered_frame s \<ge> length (video_frames s) then
        (let s' = s\<lparr>current_buffered_frame := 0\<rparr>
         in if \<not> loop_video s'
            then (clearImage (s'\<lparr>stop_video := True\<rparr>))\<lparr>video_frames := []\<rparr>
            else s')
      else s)"

definition VideoThread_buffered :: "GazeboRosVideo \<Rightarrow> error + GazeboRosVideo" where
  "VideoThread_buffered s =
     (let seek_performed = (0 \<le> video_seek_position s \<and> video_seek_position s \<le> 1);
          s1 = buffered_seek s;
          s2 = buffered_overrun s1
      in if seek_performed \<or> \<not> video_paused s2 then
           (if current_buffered_frame s2 < length (video_frames s2)
            then Inr (updateImage (video_frames s2 ! current_buffered_frame s2)
                        (s2\<lparr>current_buffered_frame := current_buffered_frame s2 + 1\<rparr>))
            else Inl (OutOfRange (current_buffered_frame s2) (length (video_frames s2))))
         else Inr s2)"

text \<open>Lines 579 to 588: a failed read in the streaming branch.\<close>

definition read_failed :: "world \<Rightarrow> GazeboRosVideo \<Rightarrow> GazeboRosVideo" where
  "read_failed w s =
     (if loop_video s then s\<lparr>cap := cap_open w (video_path s)\<rparr>
      else clearImage (s\<lparr>stop_video := True\<rparr>))"

text \<open>Lines 563 to 590: the streaming branch.\<close>

definition streaming_seek :: "GazeboRosVideo \<Rightarrow> GazeboRosVideo" where
  \<comment> \<open>lines 565 to 571\<close>
  "streaming_seek s =
     (if 0 \<le> video_seek_position s \<and> video_seek_position s \<le> 1
      then s\<lparr>cap := cap_set_pos_frames (cap s)
                      (double_mul (cap_frame_count (cap s)) (video_seek_position s)),
             video_seek_position := - 1\<rparr>
      else s)"

definition VideoThread_streaming :: "world \<Rightarrow> GazeboRosVideo \<Rightarrow> GazeboRosVideo" where
  "VideoThread_streaming w s =
     (let seek_performed = (0 \<le> video_seek_position s \<and> video_seek_position s \<le> 1);
          s1 = streaming_seek s
      in if seek_performed \<or> \<not> video_paused s1 then
           (case cap_read (cap s1) of
              (Some frame, c) \<Rightarrow>
                if \<not> Mat_empty frame then updateImage frame (s1\<lparr>cap := c\<rparr>)
                else read_failed w (s1\<lparr>cap := c\<rparr>)
            | (None, c) \<Rightarrow> read_failed w (s1\<lparr>cap := c\<rparr>))
         else s1)"

text \<open>Lines 498 to 592: the body of the loop, between taking and releasing the video lock.\<close>

definition VideoThread :: "world \<Rightarrow> GazeboRosVideo \<Rightarrow> error + GazeboRosVideo" where
  "VideoThread w s =
     (if \<not> stop_video s then
        (let s1 = VideoThread_open w s
         in if buffer_all_frames_for_fast_seek s1 \<and> video_frames s1 \<noteq> []
            then VideoThread_buffered s1
            else if isOpened (cap s1) then Inr (VideoThread_streaming w s1)
            else Inr s1)
      else Inr s)"

subsection \<open>Whether an iteration writes the slot\<close>

text \<open>
  An iteration of the loop holds \<^verbatim>\<open>m_video_\<close> and takes \<^verbatim>\<open>m_image_\<close> each time it calls
  \<^verbatim>\<open>clearImage\<close> or \<^verbatim>\<open>updateImage\<close>: when it opens a new source (line 503), when the
  cursor has run over the end of the buffer with loop disabled (line 553), when it
  delivers a buffered frame (line 560), when it delivers a frame read from the source
  (line 577), and when the read fails with loop disabled (line 586).
\<close>

definition buffered_writes_slot :: "GazeboRosVideo \<Rightarrow> bool" where
  "buffered_writes_slot s =
     (let seek_performed = (0 \<le> video_seek_position s \<and> video_seek_position s \<le> 1);
          s1 = buffered_seek s
      in (length (video_frames s1) \<le> current_buffered_frame s1 \<and> \<not> loop_video s1)
         \<or> seek_performed \<or> \<not> video_paused s1)"

definition streaming_writes_slot :: "GazeboRosVideo \<Rightarrow> bool" where
  "streaming_writes_slot s =
     (let seek_performed = (0 \<le> video_seek_position s \<and> video_seek_position s \<le> 1);
          s1 = streaming_seek s
      in (seek_performed \<or> \<not> video_paused s1)
         \<and> (case cap_read (cap s1) of
                (Some frame, c) \<Rightarrow> \<not> Mat_empty frame \<or> \<not> loop_video s1
              | (None, c) \<Rightarrow> \<not> loop_video s1))"

definition VideoThread_writes_slot :: "world \<Rightarrow> GazeboRosVideo \<Rightarrow> bool" where
  "VideoThread_writes_slot w s =
     (\<not> stop_video s
      \<and> ((new_video_available s \<and> video_path s \<noteq> [])
           \<or> (let s1 = VideoThread_open w s
               in if buffer_all_frames_for_fast_seek s1 \<and> video_frames s1 \<noteq> []
                  then buffered_writes_slot s1
                  else if isOpened (cap s1) then streaming_writes_slot s1
                  else False)))"

subsection \<open>Runs\<close>

text \<open>
  The handlers run one after the other on the queue thread; the loop iterations run on
  the video thread, the render samples on the render thread. A handler and an iteration
  exclude each other through \<^verbatim>\<open>m_video_\<close>, the writes and the samples of the slot through
  \<^verbatim>\<open>m_image_\<close>. A run is a sequence of events: the handler calls, \<open>Tick\<close> for an iteration
  of the loop and \<open>Sample\<close> for a render sample, each running to its end before the next
  event starts, and \<open>PushImageDuringTick\<close> for the one overlap that the locks let
  through in another way.

  \<^verbatim>\<open>processImage\<close> takes \<^verbatim>\<open>m_image_\<close> first and writes the slot, and asks for \<^verbatim>\<open>m_video_\<close>
  while it still holds \<^verbatim>\<open>m_image_\<close> (lines 386 to 391). \<open>PushImageDuringTick msg\<close> is a raw
  image handled while an iteration is under way: the iteration has taken \<^verbatim>\<open>m_video_\<close>
  (line 498) and still has all its writes of the slot ahead when \<^verbatim>\<open>processImage\<close> takes
  \<^verbatim>\<open>m_image_\<close>. The handler then waits for \<^verbatim>\<open>m_video_\<close>. If the iteration writes the slot
  it waits for \<^verbatim>\<open>m_image_\<close> in \<^verbatim>\<open>updateImage\<close> (line 460) and neither ever goes on: the
  error \<open>Deadlock\<close> (the same holds when the handler comes between two writes of the
  iteration). If the iteration writes nothing it runs to its end and releases
  \<^verbatim>\<open>m_video_\<close>, and the handler then sets \<^verbatim>\<open>stop_video_\<close>. In every other order of the two
  (the handler first, or the iteration past its last write of the slot) the outcome is
  that of one after the other: \<open>PushImage\<close> before or after \<open>Tick\<close>. No other pair of
  functions takes the two mutexes in opposite orders on different threads. A run stops at
  the first error.
\<close>

datatype event =
    PushImage Mat
  | PushImageDuringTick Mat
  | SetImagePath string
  | SetVideoPath string
  | Seek real
  | SetPaused bool
  | Tick
  | Sample

fun handle :: "world \<Rightarrow> event \<Rightarrow> GazeboRosVideo \<Rightarrow> error + GazeboRosVideo" where
  "handle w (PushImage msg) s = Inr (processImage msg s)"
| "handle w (PushImageDuringTick msg) s =
     (if VideoThread_writes_slot w s then Inl Deadlock
      else (case VideoThread w s of
              Inl err \<Rightarrow> Inl err
            | Inr s' \<Rightarrow> Inr (processImage msg s')))"
| "handle w (SetImagePath str) s = Inr (processImagePath w str s)"
| "handle w (SetVideoPath str) s = Inr (processVideoPath str s)"
| "handle w (Seek v) s = Inr (processVideoSeek v s)"
| "handle w (SetPaused v) s = Inr (processVideoPause v s)"
| "handle w Tick s = VideoThread w s"
| "handle w Sample s = UpdateChild s"

text \<open>The events that set a new source: a video path that is not empty.\<close>

fun sets_source :: "event \<Rightarrow> bool" where
  "sets_source (SetVideoPath str) = (str \<noteq> [])"
| "sets_source e = False"

fun run :: "world \<Rightarrow> event list \<Rightarrow> GazeboRosVideo \<Rightarrow> error + GazeboRosVideo" where
  "run w [] s = Inr s"
| "run w (e # es) s = (case handle w e s of Inl err \<Rightarrow> Inl err | Inr s' \<Rightarrow> run w es s')"

subsection \<open>The state after loading, and a small world\<close>

text \<open>
  \<^verbatim>\<open>Load\<close> (lines 193 to 311) with no default path: display size, buffering mode, loop and
  pause flags come from the configuration. \<^verbatim>\<open>Load\<close> leaves \<^verbatim>\<open>new_video_available_\<close>
  unset; with an empty path the loop never looks at it.
\<close>

definition Load :: "nat \<Rightarrow> nat \<Rightarrow> bool \<Rightarrow> bool \<Rightarrow> bool \<Rightarrow> GazeboRosVideo" where
  "Load h w buffering loop paused =
     \<lparr>video_path = [], stop_video = False, new_video_available = False,
      video_paused = paused, loop_video = loop,
      buffer_all_frames_for_fast_seek = buffering, video_seek_position = - 1,
      video_frames = [], current_buffered_frame = 0, cap = cap_new,
      image = None, new_image_available = False, height = h, width = w,
      texture = cv_zeros h w\<rparr>"

definition demo_frame :: "nat \<Rightarrow> Mat" where
  "demo_frame n = \<lparr>rows = 2, cols = 2, channels = 3, pixels = Picture n\<rparr>"

definition demo_world :: world where
  \<comment> \<open>one video of three frames of 2 by 2 pixels, no image file\<close>
  "demo_world =
     \<lparr>video_files =
        (\<lambda>p. if p = ''v'' then Some [demo_frame 0, demo_frame 1, demo_frame 2] else None),
      image_files = (\<lambda>p. Mat_new)\<rparr>"

definition demo_frames :: "nat \<Rightarrow> Mat list" where
  "demo_frames n = map demo_frame [0..<n]"

definition demo_world_long :: world where
  \<comment> \<open>a video of eleven frames and a video of ten frames\<close>
  "demo_world_long =
     \<lparr>video_files =
        (\<lambda>p. if p = ''eleven'' then Some (demo_frames 11)
             else if p = ''ten'' then Some (demo_frames 10) else None),
      image_files = (\<lambda>p. Mat_new)\<rparr>"

definition demo_buffered_long :: GazeboRosVideo where
  \<comment> \<open>buffering mode, eleven frames buffered, the first delivered, and the double
      nearest to 0.3 pending as seek fraction\<close>
  "demo_buffered_long =
     (Load 2 2 True False False)
       \<lparr>video_path := ''eleven'',
        video_seek_position := double_round (3 / 10),
        video_frames := demo_frames 11,
        current_buffered_frame := 1,
        cap := \<lparr>isOpened = True, source = demo_frames 11, pos_frames = 11\<rparr>,
        image := Some (cv_cvtColor_BGR2BGRA (demo_frame 0)),
        new_image_available := True\<rparr>"


definition demo_playing :: GazeboRosVideo where
  \<comment> \<open>streaming mode with loop, the source opened and its first frame delivered\<close>
  "demo_playing =
     updateImage (demo_frame 0)
       ((Load 2 2 False True False)
          \<lparr>video_path := ''v'',
           cap := \<lparr>isOpened = True,
                   source = [demo_frame 0, demo_frame 1, demo_frame 2],
                   pos_frames = 1\<rparr>\<rparr>)"

definition demo_buffered :: GazeboRosVideo where
  \<comment> \<open>buffering mode without loop, the source buffered and its first frame delivered\<close>
  "demo_buffered =
     (Load 2 2 True False False)
       \<lparr>video_path := ''v'',
        video_frames := [demo_frame 0, demo_frame 1, demo_frame 2],
        current_buffered_frame := 1,
        cap := \<lparr>isOpened = True,
                source = [demo_frame 0, demo_frame 1, demo_frame 2],
                pos_frames = 3\<rparr>,
        image := Some (cv_cvtColor_BGR2BGRA (demo_frame 0)),
        new_image_available := True\<rparr>"

definition demo_stream_end :: GazeboRosVideo where
  \<comment> \<open>streaming mode with loop, all three frames of the source read\<close>
  "demo_stream_end =
     (Load 2 2 False True False)
       \<lparr>video_path := ''v'',
        cap := \<lparr>isOpened = True,
                source = [demo_frame 0, demo_frame 1, demo_frame 2],
                pos_frames = 3\<rparr>,
        image := Some (cv_cvtColor_BGR2BGRA (demo_frame 2)),
        new_image_available := True\<rparr>"

definition demo_paused_at_end :: GazeboRosVideo where
  \<comment> \<open>buffering mode without loop: all three frames delivered and sampled, then paused\<close>
  "demo_paused_at_end =
     (Load 2 2 True False True)
       \<lparr>video_path := ''v'',
        video_frames := [demo_frame 0, demo_frame 1, demo_frame 2],
        current_buffered_frame := 3,
        cap := \<lparr>isOpened = True,
                source = [demo_frame 0, demo_frame 1, demo_frame 2],
                pos_frames = 3\<rparr>,
        image := Some (cv_cvtColor_BGR2BGRA (demo_frame 2)),
        texture := cv_cvtColor_BGR2BGRA (demo_frame 2)\<rparr>"

text \<open>
  A paused playback at rest: paused and not stopped, no fraction in [0, 1] pending, no newly
  set source waiting to be opened, and not at the end of the buffer with loop disabled.
\<close>

definition paused_steady :: "GazeboRosVideo \<Rightarrow> bool" where
  "paused_steady s =
     (video_paused s \<and> \<not> stop_video s
      \<and> \<not> (0 \<le> video_seek_position s \<and> video_seek_position s \<le> 1)
      \<and> \<not> (new_video_available s \<and> video_path s \<noteq> [])
      \<and> \<not> (buffer_all_frames_for_fast_seek s \<and> video_frames s \<noteq> []
            \<and> length (video_frames s) \<le> current_buffered_frame s \<and> \<not> loop_video s))"

text \<open>
  What the slot holds after a write: a frame of four channels, marked dirty, and (when
  \<open>normalized\<close>) of \<open>h\<close> rows and \<open>w\<close> columns. And a slot that was not written.
\<close>

definition slot_holds :: "bool \<Rightarrow> nat \<Rightarrow> nat \<Rightarrow> GazeboRosVideo \<Rightarrow> bool" where
  "slot_holds normalized h w t =
     (case image t of
        None \<Rightarrow> False
      | Some m \<Rightarrow> new_image_available t \<and> channels m = 4
                  \<and> (normalized \<longrightarrow> rows m = h \<and> cols m = w))"

definition slot_kept :: "GazeboRosVideo \<Rightarrow> GazeboRosVideo \<Rightarrow> bool" where
  "slot_kept s t = (image t = image s \<and> new_image_available t = new_image_available s)"

text \<open>What a run shows: the frame in the slot, and the frame in the texture.\<close>

definition slot :: "error + GazeboRosVideo \<Rightarrow> Mat option" where
  "slot r = (case r of Inl err \<Rightarrow> None | Inr s \<Rightarrow> image s)"

definition displayed :: "error + GazeboRosVideo \<Rightarrow> Mat option" where
  "displayed r = (case r of Inl err \<Rightarrow> None | Inr s \<Rightarrow> Some (texture s))"

subsection \<open>The locks\<close>

text \<open>
  The two mutexes and the order in which each function takes and releases them. A
  \<^verbatim>\<open>scoped_lock\<close> is released at the end of its scope, the inner one first.
  \<^verbatim>\<open>updateImage\<close> (line 460) holds \<^verbatim>\<open>m_image_\<close> for its body. \<^verbatim>\<open>processImage\<close> declares
  the lock on \<^verbatim>\<open>m_image_\<close> at line 386 and the lock on \<^verbatim>\<open>m_video_\<close> at line 390, in the
  same scope. \<^verbatim>\<open>processImagePath\<close> calls \<^verbatim>\<open>updateImage\<close> and then locks \<^verbatim>\<open>m_video_\<close>
  (line 404). An iteration of \<^verbatim>\<open>VideoThread\<close> that delivers a frame locks \<^verbatim>\<open>m_video_\<close>
  (line 498), calls \<^verbatim>\<open>updateImage\<close>, and unlocks \<^verbatim>\<open>m_video_\<close> (line 592).
\<close>

datatype mutex = m_image | m_video

datatype lock_event = Acquire mutex | Release mutex

definition updateImage_locking :: "lock_event list" where
  "updateImage_locking = [Acquire m_image, Release m_image]"

definition processImage_locking :: "lock_event list" where
  "processImage_locking =
     [Acquire m_image, Acquire m_video, Release m_video, Release m_image]"

definition processImagePath_locking :: "lock_event list" where
  "processImagePath_locking = updateImage_locking @ [Acquire m_video, Release m_video]"

definition VideoThread_locking :: "lock_event list" where
  "VideoThread_locking = [Acquire m_video] @ updateImage_locking @ [Release m_video]"

text \<open>Whether both mutexes are held at some moment of a trace that starts holding \<open>held\<close>.\<close>

fun holds_both :: "mutex list \<Rightarrow> lock_event list \<Rightarrow> bool" where
  "holds_both held [] = (m_image \<in> set held \<and> m_video \<in> set held)"
| "holds_both held (Acquire m # es) =
     ((m_image \<in> set held \<and> m_video \<in> set held) \<or> holds_both (m # held) es)"
| "holds_both held (Release m # es) =
     ((m_image \<in> set held \<and> m_video \<in> set held) \<or> holds_both (removeAll m held) es)"

text \<open>Whether a trace takes \<open>b\<close> while it holds \<open>a\<close>: an edge from \<open>a\<close> to \<open>b\<close> in the lock order.\<close>

fun acquires_while_holding ::
  "mutex \<Rightarrow> mutex \<Rightarrow> mutex list \<Rightarrow> lock_event list \<Rightarrow> bool" where
  "acquires_while_holding a b held [] = False"
| "acquires_while_holding a b held (Acquire m # es) =
     ((m = b \<and> a \<in> set held) \<or> acquires_while_holding a b (m # held) es)"
| "acquires_while_holding a b held (Release m # es) =
     acquires_while_holding a b (removeAll m held) es"

text \<open>
  Two threads run their traces side by side. A thread can take a mutex that the other
  does not hold, and can always release. They are stuck when each is about to take a
  mutex that the other holds. \<open>deadlock_reachable\<close> tells whether some interleaving of
  the two traces gets stuck.
\<close>

fun held_after :: "mutex list \<Rightarrow> lock_event \<Rightarrow> mutex list" where
  "held_after held (Acquire m) = m # held"
| "held_after held (Release m) = removeAll m held"

fun enabled :: "mutex list \<Rightarrow> lock_event \<Rightarrow> bool" where
  "enabled other (Acquire m) = (m \<notin> set other)"
| "enabled other (Release m) = True"

fun deadlock_reachable ::
  "mutex list \<Rightarrow> lock_event list \<Rightarrow> mutex list \<Rightarrow> lock_event list \<Rightarrow> bool" where
  "deadlock_reachable heldA [] heldB B = False"
| "deadlock_reachable heldA (a # A) heldB [] = False"
| "deadlock_reachable heldA (a # A) heldB (b # B) =
     ((\<not> enabled heldB a \<and> \<not> enabled heldA b)
      \<or> (enabled heldB a \<and> deadlock_reachable (held_after heldA a) A heldB (b # B))
      \<or> (enabled heldA b \<and> deadlock_reachable heldA (a # A) (held_after heldB b) B))"

section \<open>Properties\<close>

subsection \<open>Auxiliary facts\<close>

lemma round_half_even_lower: "of_int K \<le> x \<Longrightarrow> K \<le> round_half_even x"
proof -
  assume "of_int K \<le> x"
  then have "K \<le> \<lfloor>x\<rfloor>" by (simp add: le_floor_iff)
  then show ?thesis unfolding round_half_even_def Let_def by auto
qed

lemma round_half_even_upper: "x \<le> of_int K \<Longrightarrow> round_half_even x \<le> K"
proof -
  assume a: "x \<le> of_int K"
  have f: "\<lfloor>x\<rfloor> \<le> K" using floor_mono[OF a] by simp
  show ?thesis
  proof (cases "x = of_int \<lfloor>x\<rfloor>")
    case True
    then have "x - of_int \<lfloor>x\<rfloor> = 0" by simp
    then show ?thesis using f unfolding round_half_even_def Let_def by simp
  next
    case False
    then have "of_int \<lfloor>x\<rfloor> < x" using of_int_floor_le[of x] by linarith
    then have "of_int \<lfloor>x\<rfloor> < (of_int K :: real)" using a by linarith
    then have "\<lfloor>x\<rfloor> + 1 \<le> K" by simp
    then show ?thesis using f unfolding round_half_even_def Let_def by auto
  qed
qed

lemma scale_down_value:
  "scale_down n k y = (k', y') \<Longrightarrow> y' * 2 ^ k = y * 2 ^ k'"
proof (induction n arbitrary: k y)
  case 0
  then show ?case by simp
next
  case (Suc n)
  show ?case
  proof (cases "2 * y < 9007199254740992")
    case True
    then have "scale_down n (Suc k) (2 * y) = (k', y')" using Suc.prems by simp
    from Suc.IH[OF this] show ?thesis by simp
  next
    case False
    then show ?thesis using Suc.prems by simp
  qed
qed

lemma double_round_pos_scaled:
  assumes "x < 2 ^ 53"
  shows "\<exists>k. double_round_pos x = of_int (round_half_even (x * 2 ^ k)) / 2 ^ k"
proof -
  obtain k y where s: "scale_down 1074 0 x = (k, y)" by (cases "scale_down 1074 0 x")
  from scale_down_value[OF s] have "y = x * 2 ^ k" by simp
  then have "double_round_pos x = of_int (round_half_even (x * 2 ^ k)) / 2 ^ k"
    using assms by (simp add: double_round_pos_def s)
  then show ?thesis ..
qed

lemma double_round_pos_upper:
  assumes "0 < x" "x < 2 ^ 53" "x \<le> of_int K"
  shows "double_round_pos x \<le> of_int K"
proof -
  from double_round_pos_scaled[OF assms(2)] obtain k where
    k: "double_round_pos x = of_int (round_half_even (x * 2 ^ k)) / 2 ^ k" ..
  have "x * 2 ^ k \<le> of_int (K * 2 ^ k)" using assms(3) by simp
  then have "round_half_even (x * 2 ^ k) \<le> K * 2 ^ k" by (rule round_half_even_upper)
  then have "(of_int (round_half_even (x * 2 ^ k)) :: real) \<le> of_int (K * 2 ^ k)"
    by (simp only: of_int_le_iff)
  then have "of_int (round_half_even (x * 2 ^ k)) / 2 ^ k \<le> (of_int K :: real)"
    by (simp add: divide_le_eq)
  then show ?thesis by (simp only: k)
qed

lemma double_round_pos_lower:
  assumes "0 < x" "x < 2 ^ 53" "of_int K \<le> x"
  shows "of_int K \<le> double_round_pos x"
proof -
  from double_round_pos_scaled[OF assms(2)] obtain k where
    k: "double_round_pos x = of_int (round_half_even (x * 2 ^ k)) / 2 ^ k" ..
  have "of_int (K * 2 ^ k) \<le> x * 2 ^ k" using assms(3) by simp
  then have "K * 2 ^ k \<le> round_half_even (x * 2 ^ k)" by (rule round_half_even_lower)
  then have "(of_int (K * 2 ^ k) :: real) \<le> of_int (round_half_even (x * 2 ^ k))"
    by (simp only: of_int_le_iff)
  then have "(of_int K :: real) \<le> of_int (round_half_even (x * 2 ^ k)) / 2 ^ k"
    by (simp add: le_divide_eq)
  then show ?thesis by (simp only: k)
qed

lemma scale_down_finds:
  assumes "0 < y" "4503599627370496 \<le> y * 2 ^ j" "y * 2 ^ j < 9007199254740992" "j \<le> n"
  shows "scale_down n k y = (k + j, y * 2 ^ j)"
  using assms
proof (induction n arbitrary: k y j)
  case 0
  then show ?case by simp
next
  case (Suc n)
  show ?case
  proof (cases j)
    case 0
    then have "\<not> 2 * y < 9007199254740992" using Suc.prems(2) by simp
    then show ?thesis using 0 by simp
  next
    case (Suc j')
    have "1 \<le> (2::real) ^ j'" by simp
    then have "2 * y * 1 \<le> 2 * y * 2 ^ j'" using Suc.prems(1) by (intro mult_left_mono) simp_all
    then have lt: "2 * y < 9007199254740992" using Suc.prems(3) Suc by (simp add: mult.assoc)
    have "scale_down n (Suc k) (2 * y) = (Suc k + j', 2 * y * 2 ^ j')"
      using Suc.prems Suc by (intro Suc.IH) (simp_all add: mult.assoc mult.left_commute)
    then show ?thesis using lt Suc by (simp add: mult.assoc mult.left_commute)
  qed
qed

lemma double_round_pos_normal:
  assumes "0 < x" "4503599627370496 \<le> x * 2 ^ k" "x * 2 ^ k < 9007199254740992" "k \<le> 1074"
  shows "double_round_pos x = of_int (round_half_even (x * 2 ^ k)) / 2 ^ k"
proof -
  have "1 \<le> (2::real) ^ k" by simp
  then have "x * 1 \<le> x * 2 ^ k" using assms(1) by (intro mult_left_mono) simp_all
  then have x: "x < 9007199254740992" using assms(3) by simp
  have "scale_down 1074 0 x = (0 + k, x * 2 ^ k)"
    by (rule scale_down_finds[OF assms])
  then show ?thesis using x by (simp add: double_round_pos_def)
qed

lemma double_round_upper:
  assumes "0 \<le> x" "x < 2 ^ 53" "x \<le> of_int K"
  shows "double_round x \<le> of_int K"
proof (cases "x = 0")
  case True
  then show ?thesis using assms(3) by (simp add: double_round_def)
next
  case False
  then have "0 < x" using assms(1) by simp
  then show ?thesis using double_round_pos_upper[OF _ assms(2,3)] by (simp add: double_round_def)
qed

lemma double_round_lower:
  assumes "0 \<le> x" "x < 2 ^ 53" "of_int K \<le> x"
  shows "of_int K \<le> double_round x"
proof (cases "x = 0")
  case True
  then show ?thesis using assms(3) by (simp add: double_round_def)
next
  case False
  then have "0 < x" using assms(1) by simp
  then show ?thesis using double_round_pos_lower[OF _ assms(2,3)] by (simp add: double_round_def)
qed

lemma size_to_double_exact:
  assumes "n < 2 ^ 53"
  shows "size_to_double n = real n"
proof -
  have b: "(0::real) \<le> real n" "real n < 2 ^ 53"
    using assms by (simp_all add: of_nat_less_numeral_power_cancel_iff)
  have "double_round (real n) \<le> of_int (int n)"
    by (rule double_round_upper[OF b]) simp
  moreover have "of_int (int n) \<le> double_round (real n)"
    by (rule double_round_lower[OF b]) simp
  ultimately show ?thesis by (simp add: size_to_double_def)
qed

lemma double_mul_fraction:
  assumes "n < 2 ^ 53" "0 \<le> f" "f \<le> 1"
  shows "0 \<le> double_mul (real n) f" and "double_mul (real n) f \<le> real n"
    and "\<lfloor>real n * f\<rfloor> \<le> \<lfloor>double_mul (real n) f\<rfloor>"
    and "\<lfloor>double_mul (real n) f\<rfloor> \<le> \<lfloor>real n * f\<rfloor> + 1"
    and "double_mul (real n) f \<le> of_int (\<lfloor>real n * f\<rfloor> + 1)"
proof -
  define x where "x = real n * f"
  have x0: "0 \<le> x" unfolding x_def using assms(2) by simp
  have xn: "x \<le> real n" unfolding x_def using assms(2,3) by (simp add: mult_left_le)
  have "real n < 2 ^ 53" using assms(1) by (simp add: of_nat_less_numeral_power_cancel_iff)
  then have x53: "x < 2 ^ 53" using xn by linarith
  have "of_int 0 \<le> double_round x" by (rule double_round_lower[OF x0 x53]) (simp add: x0)
  then show "0 \<le> double_mul (real n) f" by (simp add: double_mul_def x_def)
  have "double_round x \<le> of_int (int n)" by (rule double_round_upper[OF x0 x53]) (simp add: xn)
  then show "double_mul (real n) f \<le> real n" by (simp add: double_mul_def x_def)
  have "of_int \<lfloor>x\<rfloor> \<le> double_round x" by (rule double_round_lower[OF x0 x53]) simp
  then show "\<lfloor>real n * f\<rfloor> \<le> \<lfloor>double_mul (real n) f\<rfloor>"
    by (simp add: double_mul_def x_def le_floor_iff)
  have "x \<le> of_int (\<lfloor>x\<rfloor> + 1)" by linarith
  then have up: "double_round x \<le> of_int (\<lfloor>x\<rfloor> + 1)"
    by (rule double_round_upper[OF x0 x53])
  then have "\<lfloor>double_round x\<rfloor> \<le> \<lfloor>(of_int (\<lfloor>x\<rfloor> + 1) :: real)\<rfloor>"
    by (rule floor_mono)
  then show "\<lfloor>double_mul (real n) f\<rfloor> \<le> \<lfloor>real n * f\<rfloor> + 1"
    by (simp add: double_mul_def x_def)
  show "double_mul (real n) f \<le> of_int (\<lfloor>real n * f\<rfloor> + 1)"
    using up by (simp only: double_mul_def x_def)
qed

lemma VideoThread_stopped: "stop_video s \<Longrightarrow> VideoThread w s = Inr s"
  by (simp add: VideoThread_def)

lemma run_ticks_stopped: "stop_video s \<Longrightarrow> run w (replicate n Tick) s = Inr s"
  by (induction n) (simp_all add: VideoThread_stopped)

lemma run_append:
  "run w (es @ fs) s = (case run w es s of Inl err \<Rightarrow> Inl err | Inr s' \<Rightarrow> run w fs s')"
  by (induction es arbitrary: s) (auto split: sum.splits)

lemma updateImage_keeps [simp]:
  "video_path (updateImage m s) = video_path s"
  "stop_video (updateImage m s) = stop_video s"
  "new_video_available (updateImage m s) = new_video_available s"
  "video_paused (updateImage m s) = video_paused s"
  "loop_video (updateImage m s) = loop_video s"
  "buffer_all_frames_for_fast_seek (updateImage m s) = buffer_all_frames_for_fast_seek s"
  "video_seek_position (updateImage m s) = video_seek_position s"
  "video_frames (updateImage m s) = video_frames s"
  "current_buffered_frame (updateImage m s) = current_buffered_frame s"
  "cap (updateImage m s) = cap s"
  "height (updateImage m s) = height s"
  "width (updateImage m s) = width s"
  "texture (updateImage m s) = texture s"
  "new_image_available (updateImage m s)"
  by (simp_all add: updateImage_def)

lemma updateImage_image:
  "image (updateImage m s) =
     Some (if Mat_empty m then cv_zeros (height s) (width s) else cv_cvtColor_BGR2BGRA m)"
  by (simp add: updateImage_def)

lemma clearImage_keeps [simp]:
  "video_path (clearImage s) = video_path s"
  "stop_video (clearImage s) = stop_video s"
  "new_video_available (clearImage s) = new_video_available s"
  "video_paused (clearImage s) = video_paused s"
  "loop_video (clearImage s) = loop_video s"
  "buffer_all_frames_for_fast_seek (clearImage s) = buffer_all_frames_for_fast_seek s"
  "video_seek_position (clearImage s) = video_seek_position s"
  "video_frames (clearImage s) = video_frames s"
  "current_buffered_frame (clearImage s) = current_buffered_frame s"
  "cap (clearImage s) = cap s"
  "height (clearImage s) = height s"
  "width (clearImage s) = width s"
  "texture (clearImage s) = texture s"
  "new_image_available (clearImage s)"
  by (simp_all add: clearImage_def)

lemma clearImage_image [simp]: "image (clearImage s) = Some (cv_zeros (height s) (width s))"
  by (simp add: clearImage_def updateImage_image Mat_empty_def Mat_new_def)

lemma buffer_loop_result:
  "isOpened c \<Longrightarrow>
   buffer_loop h w c acc =
     (c\<lparr>pos_frames := max (pos_frames c) (length (source c))\<rparr>,
      acc @ map (\<lambda>f. cv_resize f w h) (filter (\<lambda>f. \<not> Mat_empty f) (drop (pos_frames c) (source c))))"
proof (induction h w c acc rule: buffer_loop.induct)
  case (1 h w c acc)
  show ?case
  proof (cases "pos_frames c < length (source c)")
    case True
    then have rd: "cap_read c = (Some (source c ! pos_frames c), c\<lparr>pos_frames := pos_frames c + 1\<rparr>)"
      using 1(2) by (simp add: cap_read_def)
    have dr: "drop (pos_frames c) (source c) = source c ! pos_frames c # drop (Suc (pos_frames c)) (source c)"
      using True by (simp add: Cons_nth_drop_Suc)
    have ih: "buffer_loop h w (c\<lparr>pos_frames := pos_frames c + 1\<rparr>)
               (if \<not> Mat_empty (source c ! pos_frames c)
                then acc @ [cv_resize (source c ! pos_frames c) w h] else acc) =
        (c\<lparr>pos_frames := max (pos_frames c + 1) (length (source c))\<rparr>,
         (if \<not> Mat_empty (source c ! pos_frames c)
          then acc @ [cv_resize (source c ! pos_frames c) w h] else acc)
         @ map (\<lambda>f. cv_resize f w h)
             (filter (\<lambda>f. \<not> Mat_empty f) (drop (pos_frames c + 1) (source c))))"
      using 1(1)[OF rd[symmetric] refl] 1(2) by simp
    have mx: "max (Suc (pos_frames c)) (length (source c)) = max (pos_frames c) (length (source c))"
      using True by simp
    show ?thesis
      apply (subst buffer_loop.simps)
      apply (simp only: rd prod.case option.case)
      apply (simp only: ih)
      apply (simp add: dr mx)
      done
  next
    case False
    then have rd: "cap_read c = (None, c)" by (simp add: cap_read_def)
    have "max (pos_frames c) (length (source c)) = pos_frames c" using False by simp
    then show ?thesis
      apply (subst buffer_loop.simps)
      using False by (simp add: rd)
  qed
qed

lemma handle_stopped:
  assumes "stop_video s" "image s \<noteq> None" "\<not> sets_source e"
  shows "\<exists>t. handle w e s = Inr t \<and> stop_video t \<and> image t \<noteq> None"
proof (cases e)
  case (PushImage m) then show ?thesis by (simp add: processImage_def)
next
  case (PushImageDuringTick m) then show ?thesis
    using assms(1) by (simp add: VideoThread_writes_slot_def VideoThread_stopped processImage_def)
next
  case (SetImagePath p) then show ?thesis
    by (simp add: processImagePath_def updateImage_image)
next
  case (SetVideoPath p) then show ?thesis using assms by (simp add: processVideoPath_def)
next
  case (Seek v) then show ?thesis using assms by (simp add: processVideoSeek_def)
next
  case (SetPaused v) then show ?thesis using assms by (simp add: processVideoPause_def)
next
  case Tick then show ?thesis using assms by (simp add: VideoThread_stopped)
next
  case Sample then show ?thesis using assms
    by (auto simp: UpdateChild_def render_def Let_def)
qed

lemma run_stopped:
  assumes "stop_video s" "image s \<noteq> None" "\<forall>e\<in>set es. \<not> sets_source e"
  shows "\<exists>t. run w es s = Inr t \<and> stop_video t \<and> image t \<noteq> None"
  using assms
proof (induction es arbitrary: s)
  case Nil then show ?case by simp
next
  case (Cons e es)
  from handle_stopped[of s e w] Cons.prems obtain t where
    t: "handle w e s = Inr t" "stop_video t" "image t \<noteq> None" by auto
  from Cons.IH[OF t(2,3)] Cons.prems(3) obtain u where
    "run w es t = Inr u \<and> stop_video u \<and> image u \<noteq> None" by auto
  with t(1) show ?case by simp
qed

lemma seek_index_in_range:
  assumes "0 \<le> v" "v \<le> 1" "0 < n" "n \<le> 2 ^ 53"
  shows "nat \<lfloor>double_mul (size_to_double (n - 1)) v\<rfloor> < n"
proof -
  define m where "m = n - 1"
  have m: "m < 2 ^ 53" and mn: "m < n" using assms(3,4) by (simp_all add: m_def)
  have "double_mul (real m) v \<le> real m"
    by (rule double_mul_fraction(2)[OF m assms(1,2)])
  then have "\<lfloor>double_mul (real m) v\<rfloor> \<le> \<lfloor>real m\<rfloor>" by (rule floor_mono)
  then have "nat \<lfloor>double_mul (real m) v\<rfloor> \<le> m" by simp
  then have "nat \<lfloor>double_mul (size_to_double m) v\<rfloor> < n"
    using mn by (simp add: size_to_double_exact[OF m])
  then show ?thesis unfolding m_def .
qed

lemma buffered_seek_tick:
  assumes "0 \<le> video_seek_position s" "video_seek_position s \<le> 1" "video_frames s \<noteq> []"
    and "length (video_frames s) \<le> 2 ^ 53"
  shows "VideoThread_buffered s =
     Inr (updateImage
           (video_frames s ! current_buffered_frame (buffered_seek s))
           (s\<lparr>video_seek_position := - 1,
              current_buffered_frame := current_buffered_frame (buffered_seek s) + 1\<rparr>))"
    and "current_buffered_frame (buffered_seek s) < length (video_frames s)"
    and "current_buffered_frame (buffered_seek s)
           = nat \<lfloor>double_mul (size_to_double (length (video_frames s) - 1))
                   (video_seek_position s)\<rfloor>"
proof -
  define k where "k = nat \<lfloor>double_mul (size_to_double (length (video_frames s) - 1))
                            (video_seek_position s)\<rfloor>"
  have "0 < length (video_frames s)" using assms(3) by simp
  from seek_index_in_range[OF assms(1,2) this assms(4)]
  have k: "k < length (video_frames s)" unfolding k_def .
  have s1: "buffered_seek s = s\<lparr>current_buffered_frame := k, video_seek_position := - 1\<rparr>"
    unfolding buffered_seek_def k_def by (simp only: assms(1,2) simp_thms if_True)
  have c: "current_buffered_frame (buffered_seek s) = k" by (simp add: s1)
  have s2: "buffered_overrun (s\<lparr>current_buffered_frame := k, video_seek_position := - 1\<rparr>)
            = s\<lparr>current_buffered_frame := k, video_seek_position := - 1\<rparr>"
    using k by (simp add: buffered_overrun_def)
  have "VideoThread_buffered s =
     Inr (updateImage (video_frames s ! k)
           (s\<lparr>video_seek_position := - 1, current_buffered_frame := k + 1\<rparr>))"
    unfolding VideoThread_buffered_def Let_def s1 s2 using assms(1,2) k by simp
  then show "VideoThread_buffered s =
     Inr (updateImage
           (video_frames s ! current_buffered_frame (buffered_seek s))
           (s\<lparr>video_seek_position := - 1,
              current_buffered_frame := current_buffered_frame (buffered_seek s) + 1\<rparr>))"
    unfolding c .
  show "current_buffered_frame (buffered_seek s) < length (video_frames s)"
    unfolding c by (rule k)
  show "current_buffered_frame (buffered_seek s)
           = nat \<lfloor>double_mul (size_to_double (length (video_frames s) - 1))
                   (video_seek_position s)\<rfloor>"
    unfolding c k_def ..
qed

lemma read_failed_seek [simp]:
  "video_seek_position (read_failed w s) = video_seek_position s"
  by (simp add: read_failed_def)



lemma VideoThread_open_fields:
  "video_seek_position (VideoThread_open w s) = video_seek_position s"
  "buffer_all_frames_for_fast_seek (VideoThread_open w s) = buffer_all_frames_for_fast_seek s"
  "stop_video (VideoThread_open w s) = stop_video s"
  "video_paused (VideoThread_open w s) = video_paused s"
  "loop_video (VideoThread_open w s) = loop_video s"
  "video_path (VideoThread_open w s) = video_path s"
  "height (VideoThread_open w s) = height s"
  "width (VideoThread_open w s) = width s"
  "texture (VideoThread_open w s) = texture s"
  by (simp_all add: VideoThread_open_def Let_def split: prod.splits)


lemma VideoThread_streaming_frames [simp]:
  "video_frames (VideoThread_streaming w s) = video_frames s"
  by (simp add: VideoThread_streaming_def streaming_seek_def read_failed_def Let_def
      split: prod.splits option.splits)

lemma demo_buffered_reached:
  "run demo_world [SetVideoPath ''v'', Tick] (Load 2 2 True False False) = Inr demo_buffered"
  by code_simp

lemma updateImage_seek:
  "updateImage m (s\<lparr>video_seek_position := x\<rparr>) = (updateImage m s)\<lparr>video_seek_position := x\<rparr>"
  by (simp add: updateImage_def)

lemma clearImage_seek:
  "clearImage (s\<lparr>video_seek_position := x\<rparr>) = (clearImage s)\<lparr>video_seek_position := x\<rparr>"
  by (simp add: clearImage_def updateImage_seek)

lemma VideoThread_open_seek:
  "VideoThread_open w (s\<lparr>video_seek_position := x\<rparr>)
     = (VideoThread_open w s)\<lparr>video_seek_position := x\<rparr>"
  by (simp add: VideoThread_open_def Let_def clearImage_seek split: prod.splits)

lemma buffered_seek_invalid:
  "x < 0 \<or> 1 < x \<Longrightarrow>
   buffered_seek (s\<lparr>video_seek_position := x\<rparr>) = s\<lparr>video_seek_position := x\<rparr>"
  by (auto simp: buffered_seek_def)

lemma buffered_overrun_seek:
  "buffered_overrun (s\<lparr>video_seek_position := x\<rparr>)
     = (buffered_overrun s)\<lparr>video_seek_position := x\<rparr>"
  by (simp add: buffered_overrun_def Let_def clearImage_def updateImage_def)

lemma buffered_unsought:
  assumes "y < 0 \<or> 1 < y"
  shows "VideoThread_buffered (s\<lparr>video_seek_position := y\<rparr>) =
     (if \<not> video_paused (buffered_overrun s) then
        (if current_buffered_frame (buffered_overrun s) < length (video_frames (buffered_overrun s))
         then Inr ((updateImage
                     (video_frames (buffered_overrun s) ! current_buffered_frame (buffered_overrun s))
                     ((buffered_overrun s)\<lparr>current_buffered_frame :=
                          current_buffered_frame (buffered_overrun s) + 1\<rparr>))
                   \<lparr>video_seek_position := y\<rparr>)
         else Inl (OutOfRange (current_buffered_frame (buffered_overrun s))
                     (length (video_frames (buffered_overrun s)))))
      else Inr ((buffered_overrun s)\<lparr>video_seek_position := y\<rparr>))"
proof -
  define t where "t = buffered_overrun s"
  have ny: "(0 \<le> y \<and> y \<le> 1) = False" using assms by auto
  have u: "updateImage m (t\<lparr>video_seek_position := y, current_buffered_frame := c\<rparr>)
        = (updateImage m (t\<lparr>current_buffered_frame := c\<rparr>))\<lparr>video_seek_position := y\<rparr>" for m c
    by (simp add: updateImage_def)
  show ?thesis
    unfolding VideoThread_buffered_def Let_def buffered_seek_invalid[OF assms]
      buffered_overrun_seek t_def[symmetric]
    by (simp add: u ny)
qed

lemma buffered_invalid_seek:
  assumes "x < 0 \<or> 1 < x"
  shows "VideoThread_buffered (s\<lparr>video_seek_position := x\<rparr>)
     = map_sum id (\<lambda>t. t\<lparr>video_seek_position := x\<rparr>)
         (VideoThread_buffered (s\<lparr>video_seek_position := - 1\<rparr>))"
proof -
  have m: "(- 1::real) < 0 \<or> 1 < (- 1::real)" by simp
  show ?thesis
    unfolding buffered_unsought[OF assms] buffered_unsought[OF m] by simp
qed

lemma read_failed_seek_update:
  "read_failed w (s\<lparr>video_seek_position := y, cap := c\<rparr>)
     = (read_failed w (s\<lparr>cap := c\<rparr>))\<lparr>video_seek_position := y\<rparr>"
  by (simp add: read_failed_def clearImage_def updateImage_def)

lemma streaming_unsought:
  assumes "y < 0 \<or> 1 < y"
  shows "VideoThread_streaming w (s\<lparr>video_seek_position := y\<rparr>) =
     (if \<not> video_paused s then
        (case cap_read (cap s) of
           (Some frame, c) \<Rightarrow>
             if \<not> Mat_empty frame then updateImage frame (s\<lparr>cap := c\<rparr>)
             else read_failed w (s\<lparr>cap := c\<rparr>)
         | (None, c) \<Rightarrow> read_failed w (s\<lparr>cap := c\<rparr>))
      else s)\<lparr>video_seek_position := y\<rparr>"
proof -
  have ny: "(0 \<le> y \<and> y \<le> 1) = False" using assms by auto
  have u: "updateImage m (s\<lparr>video_seek_position := y, cap := c\<rparr>)
        = (updateImage m (s\<lparr>cap := c\<rparr>))\<lparr>video_seek_position := y\<rparr>" for m c
    by (simp add: updateImage_def)
  have sk: "streaming_seek (s\<lparr>video_seek_position := y\<rparr>) = s\<lparr>video_seek_position := y\<rparr>"
    by (simp add: streaming_seek_def ny)
  obtain r c where rc: "cap_read (cap s) = (r, c)" by (cases "cap_read (cap s)")
  show ?thesis
    unfolding VideoThread_streaming_def Let_def sk
    by (cases r) (simp_all add: ny rc u read_failed_seek_update)
qed

lemma streaming_invalid_seek:
  assumes "x < 0 \<or> 1 < x"
  shows "VideoThread_streaming w (s\<lparr>video_seek_position := x\<rparr>)
     = (VideoThread_streaming w (s\<lparr>video_seek_position := - 1\<rparr>))\<lparr>video_seek_position := x\<rparr>"
proof -
  have m: "(- 1::real) < 0 \<or> 1 < (- 1::real)" by simp
  show ?thesis
    unfolding streaming_unsought[OF assms] streaming_unsought[OF m] by simp
qed

lemma streaming_seek_fields [simp]:
  "stop_video (streaming_seek s) = stop_video s"
  "buffer_all_frames_for_fast_seek (streaming_seek s) = buffer_all_frames_for_fast_seek s"
  "new_video_available (streaming_seek s) = new_video_available s"
  "video_path (streaming_seek s) = video_path s"
  "video_paused (streaming_seek s) = video_paused s"
  "loop_video (streaming_seek s) = loop_video s"
  "height (streaming_seek s) = height s"
  "width (streaming_seek s) = width s"
  "video_frames (streaming_seek s) = video_frames s"
  "image (streaming_seek s) = image s"
  by (simp_all add: streaming_seek_def)

lemma streaming_seek_no_pending:
  "(0 \<le> video_seek_position (streaming_seek s) \<and> video_seek_position (streaming_seek s) \<le> 1) = False"
  by (simp add: streaming_seek_def)

lemma VideoThread_open_idle:
  "\<not> (new_video_available s \<and> video_path s \<noteq> []) \<Longrightarrow> VideoThread_open w s = s"
  by (auto simp: VideoThread_open_def)

lemma streaming_read_fails:
  assumes "(0 \<le> video_seek_position s \<and> video_seek_position s \<le> 1) \<or> \<not> video_paused s"
    and "case fst (cap_read (cap (streaming_seek s))) of None \<Rightarrow> True | Some frame \<Rightarrow> Mat_empty frame"
  shows "VideoThread_streaming w s
     = read_failed w ((streaming_seek s)\<lparr>cap := snd (cap_read (cap (streaming_seek s)))\<rparr>)"
proof -
  obtain r c where rc: "cap_read (cap (streaming_seek s)) = (r, c)"
    by (cases "cap_read (cap (streaming_seek s))")
  show ?thesis
    using assms unfolding VideoThread_streaming_def Let_def rc
    by (cases r) auto
qed

lemma demo_paused_at_end_reached:
  "run demo_world [SetVideoPath ''v'', Tick, Tick, Tick, SetPaused True, Sample]
     (Load 2 2 True False False) = Inr demo_paused_at_end"
  by code_simp

lemma paused_tick:
  assumes "paused_steady s"
  shows "\<exists>s'. VideoThread w s = Inr s' \<and> paused_steady s' \<and> image s' = image s
             \<and> texture s' = texture s \<and> new_image_available s' = new_image_available s"
proof -
  from assms have p: "video_paused s" "\<not> stop_video s"
    "(0 \<le> video_seek_position s \<and> video_seek_position s \<le> 1) = False"
    "\<not> (new_video_available s \<and> video_path s \<noteq> [])"
    "\<not> (buffer_all_frames_for_fast_seek s \<and> video_frames s \<noteq> []
            \<and> length (video_frames s) \<le> current_buffered_frame s \<and> \<not> loop_video s)"
    by (simp_all add: paused_steady_def)
  have op: "VideoThread_open w s = s" by (rule VideoThread_open_idle[OF p(4)])
  show ?thesis
  proof (cases "buffer_all_frames_for_fast_seek s \<and> video_frames s \<noteq> []")
    case True
    have bs: "buffered_seek s = s" by (simp add: buffered_seek_def p(3))
    show ?thesis
    proof (cases "length (video_frames s) \<le> current_buffered_frame s")
      case over: True
      then have lp: "loop_video s" using p(5) True by auto
      have bo: "buffered_overrun s = s\<lparr>current_buffered_frame := 0\<rparr>"
        using over lp by (simp add: buffered_overrun_def)
      have "VideoThread w s = Inr (s\<lparr>current_buffered_frame := 0\<rparr>)"
        using True p(1,2) by (simp add: VideoThread_def op VideoThread_buffered_def Let_def bs bo p(3))
      moreover have "paused_steady (s\<lparr>current_buffered_frame := 0\<rparr>)"
        using assms True by (simp add: paused_steady_def)
      ultimately show ?thesis by simp
    next
      case False
      have bo: "buffered_overrun s = s" using False by (simp add: buffered_overrun_def)
      have "VideoThread w s = Inr s"
        using True p(1,2) by (simp add: VideoThread_def op VideoThread_buffered_def Let_def bs bo p(3))
      then show ?thesis using assms by simp
    qed
  next
    case False
    have ss: "streaming_seek s = s" by (simp add: streaming_seek_def p(3))
    have "VideoThread_streaming w s = s"
      using p(1) by (simp add: VideoThread_streaming_def Let_def ss p(3))
    then have "VideoThread w s = Inr s"
      using False p(2) by (auto simp: VideoThread_def op)
    then show ?thesis using assms by simp
  qed
qed

lemma paused_run:
  assumes "paused_steady s" "\<not> new_image_available s" "\<forall>e\<in>set es. e = Tick \<or> e = Sample"
  shows "\<exists>u. run w es s = Inr u \<and> paused_steady u \<and> image u = image s
            \<and> texture u = texture s \<and> \<not> new_image_available u"
  using assms
proof (induction es arbitrary: s)
  case Nil
  then show ?case by simp
next
  case (Cons e es)
  have "\<exists>s'. handle w e s = Inr s' \<and> paused_steady s' \<and> image s' = image s
             \<and> texture s' = texture s \<and> \<not> new_image_available s'"
  proof (cases "e = Tick")
    case True
    then show ?thesis using paused_tick[OF Cons.prems(1), of w] Cons.prems(2) by auto
  next
    case False
    then have "e = Sample" using Cons.prems(3) by simp
    moreover have "s\<lparr>new_image_available := False\<rparr> = s"
      using Cons.prems(2) by simp
    ultimately show ?thesis using Cons.prems(1,2) by (simp add: UpdateChild_def paused_steady_def)
  qed
  then obtain s' where s': "handle w e s = Inr s'" "paused_steady s'" "image s' = image s"
    "texture s' = texture s" "\<not> new_image_available s'" by blast
  from Cons.IH[OF s'(2,5)] Cons.prems(3) obtain u where
    "run w es s' = Inr u \<and> paused_steady u \<and> image u = image s'
            \<and> texture u = texture s' \<and> \<not> new_image_available u" by auto
  then show ?case using s' by simp
qed

lemma UpdateChild_result:
  assumes "UpdateChild s = Inr t"
  shows "\<exists>x. t = s\<lparr>texture := x, new_image_available := False\<rparr>"
proof (cases "new_image_available s")
  case True
  then obtain img where "image s = Some img"
    using assms by (cases "image s") (simp_all add: UpdateChild_def)
  then show ?thesis using assms True by (auto simp: UpdateChild_def render_def Let_def)
next
  case False
  then have "t = s\<lparr>texture := texture s, new_image_available := False\<rparr>"
    using assms by (auto simp: UpdateChild_def)
  then show ?thesis by blast
qed

lemma paused_steady_sampled:
  assumes "paused_steady s" "UpdateChild s = Inr t"
  shows "paused_steady t" "\<not> new_image_available t" "image t = image s"
proof -
  from UpdateChild_result[OF assms(2)] obtain x where
    t: "t = s\<lparr>texture := x, new_image_available := False\<rparr>" by blast
  show "paused_steady t" using assms(1) by (simp add: t paused_steady_def)
  show "\<not> new_image_available t" by (simp add: t)
  show "image t = image s" by (simp add: t)
qed

lemma updateImage_holds:
  "slot_holds (rows f = height s \<and> cols f = width s) (height s) (width s) (updateImage f s)"
  by (simp add: slot_holds_def updateImage_image cv_zeros_def cv_cvtColor_BGR2BGRA_def)

lemma clearImage_holds: "slot_holds True (height s) (width s) (clearImage s)"
  by (simp add: slot_holds_def cv_zeros_def)

lemma slot_holds_weaken: "slot_holds True h w t \<Longrightarrow> slot_holds b h w t"
  by (auto simp: slot_holds_def split: option.splits)

lemma slot_holds_cong:
  "image t' = image t \<Longrightarrow> new_image_available t' = new_image_available t \<Longrightarrow>
   slot_holds b h w t' = slot_holds b h w t"
  by (simp add: slot_holds_def split: option.splits)

lemma VideoThread_open_slot:
  "slot_kept s (VideoThread_open w s) \<or> slot_holds True (height s) (width s) (VideoThread_open w s)"
  by (auto simp: VideoThread_open_def Let_def slot_kept_def slot_holds_def cv_zeros_def
        split: prod.splits)

lemma VideoThread_open_frames:
  assumes "\<forall>f\<in>set (video_frames s). rows f = height s \<and> cols f = width s"
  shows "\<forall>f\<in>set (video_frames (VideoThread_open w s)). rows f = height s \<and> cols f = width s"
  using assms
  by (auto simp: VideoThread_open_def Let_def buffer_loop_result cv_resize_def
        split: prod.splits)

lemma buffered_overrun_fields [simp]:
  "height (buffered_overrun s) = height s"
  "width (buffered_overrun s) = width s"
  "video_paused (buffered_overrun s) = video_paused s"
  by (simp_all add: buffered_overrun_def Let_def)

lemma buffered_seek_fields [simp]:
  "height (buffered_seek s) = height s"
  "width (buffered_seek s) = width s"
  "video_paused (buffered_seek s) = video_paused s"
  "video_frames (buffered_seek s) = video_frames s"
  "image (buffered_seek s) = image s"
  "new_image_available (buffered_seek s) = new_image_available s"
  by (simp_all add: buffered_seek_def)

lemma buffered_overrun_frames:
  "video_frames (buffered_overrun s) = video_frames s \<or> video_frames (buffered_overrun s) = []"
  by (simp add: buffered_overrun_def Let_def)

lemma buffered_overrun_slot:
  "slot_kept s (buffered_overrun s) \<or> slot_holds True (height s) (width s) (buffered_overrun s)"
  by (simp add: buffered_overrun_def Let_def slot_kept_def slot_holds_def cv_zeros_def)

lemma VideoThread_buffered_slot:
  assumes "VideoThread_buffered s = Inr t"
    and "\<forall>f\<in>set (video_frames s). rows f = height s \<and> cols f = width s"
  shows "slot_kept s t \<or> slot_holds True (height s) (width s) t"
proof -
  define s2 where "s2 = buffered_overrun (buffered_seek s)"
  have hw: "height s2 = height s" "width s2 = width s" by (simp_all add: s2_def)
  have fr: "video_frames s2 = video_frames s \<or> video_frames s2 = []"
    using buffered_overrun_frames[of "buffered_seek s"] by (simp add: s2_def)
  have sl: "slot_kept s s2 \<or> slot_holds True (height s) (width s) s2"
    using buffered_overrun_slot[of "buffered_seek s"]
    by (simp add: s2_def slot_kept_def)
  show ?thesis
  proof (cases "current_buffered_frame s2 < length (video_frames s2)
                \<and> ((0 \<le> video_seek_position s \<and> video_seek_position s \<le> 1) \<or> \<not> video_paused s2)")
    case True
    define f where "f = video_frames s2 ! current_buffered_frame s2"
    have "video_frames s2 \<noteq> []" using True by auto
    then have "f \<in> set (video_frames s)" using fr True by (auto simp: f_def)
    then have dims: "rows f = height s \<and> cols f = width s" using assms(2) by simp
    have t: "t = updateImage f (s2\<lparr>current_buffered_frame := current_buffered_frame s2 + 1\<rparr>)"
      using assms(1) True unfolding VideoThread_buffered_def Let_def s2_def[symmetric] f_def
      by auto
    have "slot_holds True (height s) (width s) t"
      using updateImage_holds[of f "s2\<lparr>current_buffered_frame := current_buffered_frame s2 + 1\<rparr>"]
        dims hw by (simp add: t)
    then show ?thesis ..
  next
    case False
    then have "t = s2"
      using assms(1) unfolding VideoThread_buffered_def Let_def s2_def[symmetric]
      by (auto split: if_splits)
    then show ?thesis using sl by simp
  qed
qed

lemma read_failed_slot:
  "slot_kept s (read_failed w s) \<or> slot_holds True (height s) (width s) (read_failed w s)"
  by (simp add: read_failed_def slot_kept_def slot_holds_def cv_zeros_def)

lemma VideoThread_streaming_slot:
  "slot_kept s (VideoThread_streaming w s)
   \<or> slot_holds False (height s) (width s) (VideoThread_streaming w s)"
proof -
  obtain r c where rc: "cap_read (cap (streaming_seek s)) = (r, c)"
    by (cases "cap_read (cap (streaming_seek s))")
  define s1 where "s1 = (streaming_seek s)\<lparr>cap := c\<rparr>"
  have k: "slot_kept s s1" by (simp add: s1_def slot_kept_def streaming_seek_def)
  have hw: "height s1 = height s" "width s1 = width s" by (simp_all add: s1_def)
  have rf: "slot_kept s (read_failed w s1) \<or> slot_holds False (height s) (width s) (read_failed w s1)"
    using read_failed_slot[of s1 w] k hw slot_holds_weaken[of "height s" "width s" "read_failed w s1" False]
    by (auto simp: slot_kept_def)
  have ui: "slot_holds False (height s) (width s) (updateImage f s1)" for f
    by (simp add: slot_holds_def updateImage_image cv_zeros_def cv_cvtColor_BGR2BGRA_def)
  have sk: "slot_kept s (streaming_seek s)" by (simp add: slot_kept_def streaming_seek_def)
  show ?thesis
    unfolding VideoThread_streaming_def Let_def rc s1_def[symmetric]
    using rf ui sk by (cases r) (auto simp: s1_def[symmetric])
qed

lemma VideoThread_buffered_dims:
  assumes "VideoThread_buffered s = Inr t"
  shows "height t = height s \<and> width t = width s"
  using assms
  by (auto simp: VideoThread_buffered_def Let_def split: if_splits)

lemma read_failed_dims [simp]:
  "height (read_failed w s) = height s" "width (read_failed w s) = width s"
  by (simp_all add: read_failed_def)

lemma VideoThread_streaming_dims [simp]:
  "height (VideoThread_streaming w s) = height s"
  "width (VideoThread_streaming w s) = width s"
  by (simp_all add: VideoThread_streaming_def Let_def split: prod.splits option.splits)

lemma VideoThread_dims:
  assumes "VideoThread w s = Inr t"
  shows "height t = height s \<and> width t = width s"
proof (cases "stop_video s")
  case True
  then show ?thesis using assms by (simp add: VideoThread_stopped)
next
  case False
  define s1 where "s1 = VideoThread_open w s"
  have hw: "height s1 = height s" "width s1 = width s"
    by (simp_all add: s1_def VideoThread_open_fields)
  have "VideoThread_buffered s1 = Inr t \<or> t = VideoThread_streaming w s1 \<or> t = s1"
    using assms False unfolding VideoThread_def Let_def s1_def[symmetric]
    by (auto split: if_splits)
  then show ?thesis using VideoThread_buffered_dims[of s1 t] hw by auto
qed

lemma slot_holds_sample:
  assumes "slot_holds b h w t"
  shows "\<exists>m. image t = Some m \<and> new_image_available t \<and> channels m = 4
           \<and> (b \<longrightarrow> rows m = h \<and> cols m = w)
           \<and> (\<exists>u. UpdateChild t = Inr u
                  \<and> texture u = (if rows m \<noteq> height t \<or> cols m \<noteq> width t
                                 then cv_resize m (width t) (height t) else m)
                  \<and> rows (texture u) = height t \<and> cols (texture u) = width t
                  \<and> pixels (texture u) = pixels m)"
proof -
  from assms obtain m where m: "image t = Some m" "new_image_available t" "channels m = 4"
    "b \<longrightarrow> rows m = h \<and> cols m = w"
    by (auto simp: slot_holds_def split: option.splits)
  have "UpdateChild t = Inr ((render m t)\<lparr>new_image_available := False\<rparr>)"
    using m(1,2) by (simp add: UpdateChild_def)
  moreover have "texture (render m t) = (if rows m \<noteq> height t \<or> cols m \<noteq> width t
                                 then cv_resize m (width t) (height t) else m)"
    by (simp add: render_def)
  moreover have "rows (texture (render m t)) = height t" "cols (texture (render m t)) = width t"
    "pixels (texture (render m t)) = pixels m"
    by (auto simp: render_def cv_resize_def)
  ultimately show ?thesis using m by simp
qed

lemma demo_playing_reached:
  "run demo_world [SetVideoPath ''v'', Tick] (Load 2 2 False True False) = Inr demo_playing"
  by code_simp

lemma demo_stream_end_reached:
  "run demo_world [SetVideoPath ''v'', Tick, Tick, Tick] (Load 2 2 False True False)
     = Inr demo_stream_end"
  by code_simp

lemma double_nearest_three_tenths: "double_round (3 / 10) = 5404319552844595 / 2 ^ 54"
proof -
  have "double_round_pos (3 / 10) = of_int (round_half_even (3 / 10 * 2 ^ 54)) / 2 ^ 54"
    by (rule double_round_pos_normal) simp_all
  also have "\<dots> = 5404319552844595 / 2 ^ 54" by (simp add: round_half_even_def)
  finally show ?thesis by (simp add: double_round_def)
qed

lemma ten_times_three_tenths:
  "double_mul (size_to_double 10) (5404319552844595 / 2 ^ 54) = 3"
proof -
  have s: "size_to_double 10 = 10" using size_to_double_exact[of 10] by simp
  have "double_round_pos (10 * (5404319552844595 / 2 ^ 54))
          = of_int (round_half_even (10 * (5404319552844595 / 2 ^ 54) * 2 ^ 51)) / 2 ^ 51"
    by (rule double_round_pos_normal) simp_all
  also have "\<dots> = 3" by (simp add: round_half_even_def)
  finally show ?thesis by (simp add: double_mul_def double_round_def s)
qed

lemma two_times_three_eighths: "double_mul (size_to_double 2) (3 / 8) = 3 / 4"
proof -
  have s: "size_to_double 2 = 2" using size_to_double_exact[of 2] by simp
  have "double_round_pos (2 * (3 / 8)) = of_int (round_half_even (2 * (3 / 8) * 2 ^ 53)) / 2 ^ 53"
    by (rule double_round_pos_normal) simp_all
  also have "\<dots> = 3 / 4" by (simp add: round_half_even_def)
  finally show ?thesis by (simp add: double_mul_def double_round_def s)
qed

lemma VideoThread_buffered_seek:
  assumes "\<not> stop_video s" "buffer_all_frames_for_fast_seek s"
    and "\<not> (new_video_available s \<and> video_path s \<noteq> [])"
    and "video_frames s \<noteq> []" "length (video_frames s) \<le> 2 ^ 53"
    and "0 \<le> video_seek_position s" "video_seek_position s \<le> 1"
  shows "VideoThread w s =
           Inr (updateImage (video_frames s ! current_buffered_frame (buffered_seek s))
                 (s\<lparr>video_seek_position := - 1,
                    current_buffered_frame := current_buffered_frame (buffered_seek s) + 1\<rparr>))"
proof -
  have op: "VideoThread_open w s = s" by (rule VideoThread_open_idle[OF assms(3)])
  have "VideoThread w s = VideoThread_buffered s"
    using assms(1,2,4) by (simp add: VideoThread_def op)
  then show ?thesis using buffered_seek_tick(1)[OF assms(6,7,4,5)] by simp
qed

lemma demo_buffered_seek_three_eighths:
  "current_buffered_frame (buffered_seek (demo_buffered\<lparr>video_seek_position := 3 / 8\<rparr>)) = 0"
proof -
  let ?s = "demo_buffered\<lparr>video_seek_position := 3 / 8\<rparr>"
  have h: "video_frames ?s \<noteq> []" "length (video_frames ?s) \<le> 2 ^ 53"
    "0 \<le> video_seek_position ?s" "video_seek_position ?s \<le> 1"
    by (simp_all add: demo_buffered_def)
  have l: "length (video_frames ?s) - 1 = 2" "video_seek_position ?s = 3 / 8"
    by (simp_all add: demo_buffered_def)
  show ?thesis
    unfolding buffered_seek_tick(3)[OF h(3,4,1,2)] l two_times_three_eighths by simp
qed

lemma demo_buffered_long_seek:
  "current_buffered_frame (buffered_seek demo_buffered_long) = 3"
proof -
  have h: "video_frames demo_buffered_long \<noteq> []"
    "length (video_frames demo_buffered_long) \<le> 2 ^ 53"
    "0 \<le> video_seek_position demo_buffered_long"
    "video_seek_position demo_buffered_long \<le> 1"
    by (simp_all add: demo_buffered_long_def demo_frames_def double_nearest_three_tenths)
  have l: "length (video_frames demo_buffered_long) - 1 = 10"
    "video_seek_position demo_buffered_long = 5404319552844595 / 2 ^ 54"
    by (simp_all add: demo_buffered_long_def demo_frames_def double_nearest_three_tenths)
  show ?thesis
    unfolding buffered_seek_tick(3)[OF h(3,4,1,2)] l ten_times_three_tenths by simp
qed

lemma demo_buffered_long_opened:
  "run demo_world_long [SetVideoPath ''eleven'', Tick] (Load 2 2 True False False)
     = Inr (demo_buffered_long\<lparr>video_seek_position := - 1\<rparr>)"
  by code_simp

lemma demo_buffered_long_reached:
  "run demo_world_long [SetVideoPath ''eleven'', Tick, Seek (double_round (3 / 10))]
     (Load 2 2 True False False) = Inr demo_buffered_long"
proof -
  have e: "(demo_buffered_long\<lparr>video_seek_position := - 1\<rparr>)
          \<lparr>video_seek_position := double_round (3 / 10)\<rparr> = demo_buffered_long"
    by (simp add: demo_buffered_long_def)
  have l: "[SetVideoPath ''eleven'', Tick, Seek (double_round (3 / 10))]
             = [SetVideoPath ''eleven'', Tick] @ [Seek (double_round (3 / 10))]"
    by simp
  show ?thesis
    unfolding l run_append demo_buffered_long_opened
    by (simp add: processVideoSeek_def e)
qed

text \<open>
  The products follow double arithmetic: with eleven buffered frames and the double nearest
  to 0.3 as fraction, the exact product is just below 3, the double product is 3, and the
  iteration delivers frame 3.
\<close>

lemma seek_products_are_double_products:
  "\<lfloor>real (11 - 1) * double_round (3 / 10)\<rfloor> = 2
   \<and> double_mul (size_to_double (11 - 1)) (double_round (3 / 10)) = 3
   \<and> current_buffered_frame (buffered_seek demo_buffered_long) = 3
   \<and> slot (VideoThread demo_world_long demo_buffered_long)
       = Some (cv_cvtColor_BGR2BGRA (demo_frame 3))"
proof -
  have h: "\<not> stop_video demo_buffered_long"
    "buffer_all_frames_for_fast_seek demo_buffered_long"
    "\<not> (new_video_available demo_buffered_long \<and> video_path demo_buffered_long \<noteq> [])"
    "video_frames demo_buffered_long \<noteq> []"
    "length (video_frames demo_buffered_long) \<le> 2 ^ 53"
    "0 \<le> video_seek_position demo_buffered_long"
    "video_seek_position demo_buffered_long \<le> 1"
    by (simp_all add: demo_buffered_long_def Load_def demo_frames_def double_nearest_three_tenths)
  have f: "video_frames demo_buffered_long ! 3 = demo_frame 3"
    by (simp add: demo_buffered_long_def demo_frames_def)
  have "slot (VideoThread demo_world_long demo_buffered_long)
       = Some (cv_cvtColor_BGR2BGRA (demo_frame 3))"
    unfolding VideoThread_buffered_seek[OF h] demo_buffered_long_seek
    by (simp add: slot_def updateImage_image f demo_frame_def Mat_empty_def)
  then show ?thesis
    using ten_times_three_tenths demo_buffered_long_seek
    by (simp add: double_nearest_three_tenths)
qed

text \<open>
  In streaming mode likewise: with a source of ten frames and the same fraction the
  position handed to the capture is 3, the exact product being just below 3.
\<close>

lemma streaming_seek_double_product:
  "pos_frames (cap (streaming_seek
      ((Load 2 2 False False False)
         \<lparr>video_path := ''ten'',
          video_seek_position := double_round (3 / 10),
          cap := \<lparr>isOpened = True, source = demo_frames 10, pos_frames = 1\<rparr>\<rparr>))) = 3
   \<and> \<lfloor>real (length (demo_frames 10)) * double_round (3 / 10)\<rfloor> = 2"
proof -
  have l: "length (demo_frames 10) = 10" by (simp add: demo_frames_def)
  have v: "(0::real) \<le> 5404319552844595 / 2 ^ 54" "(5404319552844595::real) / 2 ^ 54 \<le> 1"
    by simp_all
  have t: "double_mul (size_to_double 10) (5404319552844595 / 18014398509481984) = 3"
    using ten_times_three_tenths by simp
  show ?thesis
    using v
    by (simp add: streaming_seek_def cap_set_pos_frames_def cap_frame_count_def l
          double_nearest_three_tenths t)
qed

lemma VideoThread_without_write:
  assumes "\<not> VideoThread_writes_slot w s"
  shows "\<exists>t. VideoThread w s = Inr t \<and> slot_kept s t"
proof (cases "stop_video s")
  case True
  then show ?thesis by (simp add: VideoThread_stopped slot_kept_def)
next
  case False
  then have idle: "\<not> (new_video_available s \<and> video_path s \<noteq> [])"
    using assms by (auto simp: VideoThread_writes_slot_def)
  have op: "VideoThread_open w s = s" by (rule VideoThread_open_idle[OF idle])
  show ?thesis
  proof (cases "buffer_all_frames_for_fast_seek s \<and> video_frames s \<noteq> []")
    case True
    then have nw: "\<not> buffered_writes_slot s"
      using assms False idle by (simp add: VideoThread_writes_slot_def op)
    then have np: "(0 \<le> video_seek_position s \<and> video_seek_position s \<le> 1) = False"
      and p: "video_paused s"
      by (auto simp: buffered_writes_slot_def Let_def)
    have bs: "buffered_seek s = s" by (simp add: buffered_seek_def np)
    have no: "\<not> (length (video_frames s) \<le> current_buffered_frame s \<and> \<not> loop_video s)"
      using nw by (simp add: buffered_writes_slot_def Let_def bs)
    have k: "slot_kept s (buffered_overrun s)"
      using no by (auto simp: buffered_overrun_def Let_def slot_kept_def)
    have "VideoThread w s = Inr (buffered_overrun s)"
      using True False p by (simp add: VideoThread_def op VideoThread_buffered_def Let_def bs np)
    then show ?thesis using k by simp
  next
    case nb: False
    show ?thesis
    proof (cases "isOpened (cap s)")
      case True
      then have nw: "\<not> streaming_writes_slot s"
        using assms False idle nb by (auto simp: VideoThread_writes_slot_def op)
      obtain r c where rc: "cap_read (cap (streaming_seek s)) = (r, c)"
        by (cases "cap_read (cap (streaming_seek s))")
      have k: "slot_kept s (VideoThread_streaming w s)"
        using nw unfolding streaming_writes_slot_def VideoThread_streaming_def Let_def rc
        by (cases r)
           (auto simp: slot_kept_def read_failed_def streaming_seek_def split: if_splits)
      have "VideoThread w s = Inr (VideoThread_streaming w s)"
        using True False nb by (auto simp: VideoThread_def op)
      then show ?thesis using k by simp
    next
      case no: False
      then have "VideoThread w s = Inr s"
        using False nb by (auto simp: VideoThread_def op)
      then show ?thesis by (simp add: slot_kept_def)
    qed
  qed
qed

lemma slot_holds_written: "slot_holds b h w t \<Longrightarrow> new_image_available t \<and> image t \<noteq> None"
  by (auto simp: slot_holds_def split: option.splits)

lemma VideoThread_buffered_written:
  assumes "VideoThread_buffered s = Inr t" "buffered_writes_slot s"
  shows "slot_holds False (height s) (width s) t"
proof -
  define s2 where "s2 = buffered_overrun (buffered_seek s)"
  have hw: "height s2 = height s" "width s2 = width s" by (simp_all add: s2_def)
  show ?thesis
  proof (cases "(0 \<le> video_seek_position s \<and> video_seek_position s \<le> 1) \<or> \<not> video_paused s2")
    case True
    then have "\<exists>f. t = updateImage f (s2\<lparr>current_buffered_frame := current_buffered_frame s2 + 1\<rparr>)"
      using assms(1) unfolding VideoThread_buffered_def Let_def s2_def[symmetric]
      by (auto split: if_splits)
    then obtain f where t: "t = updateImage f (s2\<lparr>current_buffered_frame := current_buffered_frame s2 + 1\<rparr>)" ..
    show ?thesis
      by (simp add: t slot_holds_def updateImage_image cv_zeros_def cv_cvtColor_BGR2BGRA_def)
  next
    case False
    then have t: "t = s2"
      using assms(1) unfolding VideoThread_buffered_def Let_def s2_def[symmetric] by auto
    have p: "video_paused (buffered_seek s)" using False by (simp add: s2_def)
    have "length (video_frames (buffered_seek s)) \<le> current_buffered_frame (buffered_seek s)
          \<and> \<not> loop_video (buffered_seek s)"
      using assms(2) False p by (auto simp: buffered_writes_slot_def Let_def)
    then have "s2 = (clearImage ((buffered_seek s)\<lparr>current_buffered_frame := 0, stop_video := True\<rparr>))
                      \<lparr>video_frames := []\<rparr>"
      by (simp add: s2_def buffered_overrun_def Let_def)
    then show ?thesis by (simp add: t slot_holds_def cv_zeros_def)
  qed
qed

lemma VideoThread_streaming_written:
  assumes "streaming_writes_slot s"
  shows "slot_holds False (height s) (width s) (VideoThread_streaming w s)"
proof -
  obtain r c where rc: "cap_read (cap (streaming_seek s)) = (r, c)"
    by (cases "cap_read (cap (streaming_seek s))")
  show ?thesis
    using assms unfolding streaming_writes_slot_def VideoThread_streaming_def Let_def rc
    by (cases r)
       (auto simp: slot_holds_def read_failed_def updateImage_image cv_zeros_def
          cv_cvtColor_BGR2BGRA_def)
qed

lemma VideoThread_buffered_keeps_written:
  assumes "VideoThread_buffered s = Inr t" "new_image_available s" "image s \<noteq> None"
  shows "new_image_available t \<and> image t \<noteq> None"
proof -
  define s2 where "s2 = buffered_overrun (buffered_seek s)"
  have s2: "new_image_available s2 \<and> image s2 \<noteq> None"
    using assms(2,3) by (simp add: s2_def buffered_overrun_def buffered_seek_def Let_def)
  have "t = s2 \<or> (\<exists>f. t = updateImage f (s2\<lparr>current_buffered_frame := current_buffered_frame s2 + 1\<rparr>))"
    using assms(1) unfolding VideoThread_buffered_def Let_def s2_def[symmetric]
    by (auto split: if_splits)
  then show ?thesis using s2 by (auto simp: updateImage_image)
qed

lemma VideoThread_streaming_keeps_written:
  assumes "new_image_available s" "image s \<noteq> None"
  shows "new_image_available (VideoThread_streaming w s) \<and> image (VideoThread_streaming w s) \<noteq> None"
proof -
  obtain r c where rc: "cap_read (cap (streaming_seek s)) = (r, c)"
    by (cases "cap_read (cap (streaming_seek s))")
  show ?thesis
    using assms unfolding VideoThread_streaming_def Let_def rc
    by (cases r) (auto simp: read_failed_def updateImage_image streaming_seek_def)
qed

lemma VideoThread_with_write:
  assumes "VideoThread_writes_slot w s" "VideoThread w s = Inr t"
  shows "new_image_available t \<and> image t \<noteq> None"
proof -
  have ns: "\<not> stop_video s" using assms(1) by (simp add: VideoThread_writes_slot_def)
  define s1 where "s1 = VideoThread_open w s"
  have br: "(buffer_all_frames_for_fast_seek s1 \<and> video_frames s1 \<noteq> [] \<and> VideoThread_buffered s1 = Inr t)
            \<or> (\<not> (buffer_all_frames_for_fast_seek s1 \<and> video_frames s1 \<noteq> []) \<and> isOpened (cap s1)
                \<and> t = VideoThread_streaming w s1)
            \<or> (\<not> (buffer_all_frames_for_fast_seek s1 \<and> video_frames s1 \<noteq> []) \<and> \<not> isOpened (cap s1)
                \<and> t = s1)"
    using assms(2) ns unfolding VideoThread_def Let_def s1_def[symmetric]
    by (auto split: if_splits)
  show ?thesis
  proof (cases "new_video_available s \<and> video_path s \<noteq> []")
    case True
    then have w1: "new_image_available s1" "image s1 \<noteq> None"
      by (auto simp: s1_def VideoThread_open_def Let_def split: prod.splits)
    from br show ?thesis
      using VideoThread_buffered_keeps_written[OF _ w1, of t]
        VideoThread_streaming_keeps_written[OF w1, of w] w1
      by auto
  next
    case False
    then have op: "s1 = s" by (simp add: s1_def VideoThread_open_idle)
    have wr: "if buffer_all_frames_for_fast_seek s \<and> video_frames s \<noteq> []
              then buffered_writes_slot s
              else isOpened (cap s) \<and> streaming_writes_slot s"
      using assms(1) False
      by (auto simp: VideoThread_writes_slot_def Let_def VideoThread_open_idle split: if_splits)
    from br show ?thesis
      unfolding op
      using wr VideoThread_buffered_written[of s t] VideoThread_streaming_written[of s w]
        slot_holds_written
      by (auto split: if_splits)
  qed
qed

subsection \<open>Buffer accesses\<close>

text \<open>
  C1. In buffering mode every read of \<^verbatim>\<open>video_frames_[current_buffered_frame_]\<close> should be
  in bounds, and on the tick where the cursor overruns the end with loop disabled no
  element of the emptied buffer should be read. The code does read one: with a display
  of 2 by 2, no loop and a source of three frames, three ticks deliver the frames 0, 1
  and 2, and the fourth tick clears the buffer (line 554) and then reads its element 0
  (line 560), the buffer having size 0.
\<close>

theorem buffered_overrun_reads_cleared_buffer:
  "run demo_world [SetVideoPath ''v'', Tick, Tick, Tick, Tick] (Load 2 2 True False False)
     = Inl (OutOfRange 0 0)"
  by code_simp

text \<open>
  The same happens from every state of the buffered branch whose cursor stands at or
  past the end of the buffer, with loop disabled, playback not paused and no fraction
  pending.
\<close>

lemma buffered_overrun_unpaused_fails:
  assumes "\<not> stop_video s" "buffer_all_frames_for_fast_seek s" "video_frames s \<noteq> []"
    and "\<not> (new_video_available s \<and> video_path s \<noteq> [])"
    and "\<not> (0 \<le> video_seek_position s \<and> video_seek_position s \<le> 1)"
    and "length (video_frames s) \<le> current_buffered_frame s"
    and "\<not> loop_video s" "\<not> video_paused s"
  shows "VideoThread w s = Inl (OutOfRange 0 0)"
proof -
  have np: "(0 \<le> video_seek_position s \<and> video_seek_position s \<le> 1) = False"
    using assms(5) by simp
  have bs: "buffered_seek s = s" by (simp add: buffered_seek_def np)
  have "VideoThread w s = VideoThread_buffered s"
    using assms(1,2,3) by (simp add: VideoThread_def VideoThread_open_idle[OF assms(4)])
  also have "\<dots> = Inl (OutOfRange 0 0)"
    using assms(6,7,8)
    by (simp add: VideoThread_buffered_def Let_def bs buffered_overrun_def np)
  finally show ?thesis .
qed

subsection \<open>Lock order\<close>

text \<open>
  C5. The raw-image handler should release the image lock before it takes the video
  lock. In the code \<^verbatim>\<open>processImage\<close> holds both at once: it takes the video lock while it
  holds the image lock, whereas the playback loop takes the image lock while it holds the
  video lock, so the lock order has a cycle. \<^verbatim>\<open>processImagePath\<close> never holds both.
\<close>

theorem processImage_holds_both_locks:
  "holds_both [] processImage_locking
   \<and> acquires_while_holding m_image m_video [] processImage_locking
   \<and> acquires_while_holding m_video m_image [] VideoThread_locking
   \<and> \<not> holds_both [] processImagePath_locking"
  by (simp add: processImage_locking_def VideoThread_locking_def
        processImagePath_locking_def updateImage_locking_def)

subsection \<open>Stopped playback\<close>



subsection \<open>Clearing the video path\<close>

text \<open>
  C6. From every state, setting the video path to the empty string stops playback and
  writes an all-zero frame of the display's size into the slot (a render sample then
  shows it); and as long as no event sets a non-empty video path, whatever else happens
  (iterations of the loop, samples, seeks, pauses, pushed images, image paths), playback
  stays stopped and an iteration of the loop produces nothing.
\<close>

theorem empty_video_path_stops:
  assumes "\<forall>e\<in>set es. \<not> sets_source e"
  shows "stop_video (processVideoPath [] s)
       \<and> image (processVideoPath [] s) = Some (cv_zeros (height s) (width s))
       \<and> new_image_available (processVideoPath [] s)
       \<and> displayed (UpdateChild (processVideoPath [] s)) = Some (cv_zeros (height s) (width s))
       \<and> (\<exists>t. run w es (processVideoPath [] s) = Inr t \<and> stop_video t \<and> VideoThread w t = Inr t)"
proof -
  let ?s = "processVideoPath [] s"
  have a: "stop_video ?s" by (simp add: processVideoPath_def)
  have b: "image ?s = Some (cv_zeros (height s) (width s))" by (simp add: processVideoPath_def)
  have c: "new_image_available ?s" by (simp add: processVideoPath_def)
  have hw: "height ?s = height s" "width ?s = width s" by (simp_all add: processVideoPath_def)
  have d: "displayed (UpdateChild ?s) = Some (cv_zeros (height s) (width s))"
    by (simp add: UpdateChild_def b c hw displayed_def render_def cv_zeros_def)
  from run_stopped[OF a _ assms, of w] b obtain t where
    "run w es ?s = Inr t" "stop_video t" by auto
  then have e: "\<exists>t. run w es ?s = Inr t \<and> stop_video t \<and> VideoThread w t = Inr t"
    by (auto simp: VideoThread_stopped)
  from a b c d e show ?thesis by blast
qed

theorem empty_video_path_stops_witness:
  "\<not> stop_video demo_playing
   \<and> stop_video (processVideoPath [] demo_playing)
   \<and> image (processVideoPath [] demo_playing) = Some (cv_zeros 2 2)
   \<and> displayed (UpdateChild (processVideoPath [] demo_playing)) = Some (cv_zeros 2 2)
   \<and> (\<exists>t. run demo_world [Tick, Sample, Seek (1 / 2), SetPaused False, Tick]
            (processVideoPath [] demo_playing) = Inr t
          \<and> stop_video t \<and> VideoThread demo_world t = Inr t)"
proof -
  have h: "\<forall>e\<in>set [Tick, Sample, Seek (1 / 2), SetPaused False, Tick]. \<not> sets_source e"
    by simp
  have d: "height demo_playing = 2" "width demo_playing = 2" "\<not> stop_video demo_playing"
    by (simp_all add: demo_playing_def Load_def)
  from empty_video_path_stops[OF h, of demo_playing demo_world] d show ?thesis
    by simp
qed

subsection \<open>Pushing a raw image\<close>

text \<open>
  C8. After a raw image is pushed while a video is playing, the playback loop should see
  \<^verbatim>\<open>stop_video_\<close> within one iteration, and the next render sample should deliver the
  pushed image. The code can block instead. With a video playing (streaming, not paused),
  the iteration under way holds \<^verbatim>\<open>m_video_\<close> and is about to deliver frame 1. The handler
  \<^verbatim>\<open>processImage\<close> takes \<^verbatim>\<open>m_image_\<close>, writes the slot and waits for \<^verbatim>\<open>m_video_\<close> (line 390);
  the iteration waits for \<^verbatim>\<open>m_image_\<close> in \<^verbatim>\<open>updateImage\<close> (line 460). Neither goes on:
  \<^verbatim>\<open>stop_video_\<close> is never set and a render sample, which needs \<^verbatim>\<open>m_image_\<close>, never
  returns. The traces of the two functions have an interleaving that gets stuck; those of
  \<^verbatim>\<open>processImagePath\<close>, which releases \<^verbatim>\<open>m_image_\<close> first, and of the iteration have none.
  This is the defect of C5.
\<close>

theorem pushed_image_deadlocks_playback:
  "\<not> stop_video demo_playing
   \<and> VideoThread_writes_slot demo_world demo_playing
   \<and> slot (run demo_world [Tick] demo_playing) = Some (cv_cvtColor_BGR2BGRA (demo_frame 1))
   \<and> run demo_world [PushImageDuringTick (demo_frame 7)] demo_playing = Inl Deadlock
   \<and> run demo_world [PushImageDuringTick (demo_frame 7), Tick, Sample] demo_playing
       = Inl Deadlock
   \<and> deadlock_reachable [] processImage_locking [] VideoThread_locking
   \<and> \<not> deadlock_reachable [] processImagePath_locking [] VideoThread_locking"
  by code_simp

text \<open>
  When the handler does not meet an iteration that still has the slot to write, the push
  does what is expected of it: \<^verbatim>\<open>stop_video_\<close> is set, so the next iteration does nothing;
  playback stays stopped as long as no event sets a non-empty video path; and after any
  number of iterations the next render sample copies the pushed image (in the display's
  size) into the texture.
\<close>

lemma pushed_image_without_overlap:
  assumes "\<forall>e\<in>set es. \<not> sets_source e"
  shows "stop_video (processImage msg s)
       \<and> VideoThread w (processImage msg s) = Inr (processImage msg s)
       \<and> (\<exists>t. run w es (processImage msg s) = Inr t \<and> stop_video t \<and> VideoThread w t = Inr t)
       \<and> (\<exists>u. run w (replicate n Tick @ [Sample]) (processImage msg s) = Inr u
              \<and> texture u = texture (render (toCvCopy_bgra8 msg) s)
              \<and> pixels (texture u) = pixels msg
              \<and> rows (texture u) = height s \<and> cols (texture u) = width s)"
proof -
  let ?s = "processImage msg s"
  have a: "stop_video ?s" by (simp add: processImage_def)
  have b: "image ?s = Some (toCvCopy_bgra8 msg)" by (simp add: processImage_def)
  have c: "new_image_available ?s" by (simp add: processImage_def)
  have hw: "height ?s = height s" "width ?s = width s" by (simp_all add: processImage_def)
  from run_stopped[OF a _ assms, of w] b obtain t where
    "run w es ?s = Inr t" "stop_video t" by auto
  then have e: "\<exists>t. run w es ?s = Inr t \<and> stop_video t \<and> VideoThread w t = Inr t"
    by (auto simp: VideoThread_stopped)
  have r: "run w (replicate n Tick @ [Sample]) ?s = UpdateChild ?s"
    by (simp add: run_append run_ticks_stopped[OF a] split: sum.splits)
  have u: "UpdateChild ?s = Inr ((render (toCvCopy_bgra8 msg) ?s)\<lparr>new_image_available := False\<rparr>)"
    by (simp add: UpdateChild_def b c)
  have tx: "texture (render (toCvCopy_bgra8 msg) ?s) = texture (render (toCvCopy_bgra8 msg) s)"
    by (simp add: render_def hw)
  have px: "pixels (texture (render (toCvCopy_bgra8 msg) s)) = pixels msg"
           "rows (texture (render (toCvCopy_bgra8 msg) s)) = height s"
           "cols (texture (render (toCvCopy_bgra8 msg) s)) = width s"
    by (auto simp: render_def toCvCopy_bgra8_def cv_resize_def)
  have f: "\<exists>u. run w (replicate n Tick @ [Sample]) ?s = Inr u
              \<and> texture u = texture (render (toCvCopy_bgra8 msg) s)
              \<and> pixels (texture u) = pixels msg
              \<and> rows (texture u) = height s \<and> cols (texture u) = width s"
    by (simp add: r u tx px)
  from a e f VideoThread_stopped[OF a] show ?thesis by blast
qed

subsection \<open>Seeking in the buffer\<close>

text \<open>
  C4, as stated: consuming a pending seek with fraction f sets the buffer cursor to
  round((buffer_length - 1) * f). This fails: with three buffered frames and f = 3/8 the
  product is 3/4 (exactly, also as a double), which rounds to 1, and the code sets the
  cursor to 0 and delivers frame 0: the assignment at line 542 cuts the product to an
  integer.
\<close>

theorem buffered_seek_rounds_counterexample:
  "current_buffered_frame (buffered_seek (demo_buffered\<lparr>video_seek_position := 3 / 8\<rparr>)) = 0
   \<and> round (real (length (video_frames demo_buffered) - 1) * (3 / 8)) = (1::int)
   \<and> slot (run demo_world [Seek (3 / 8), Tick] demo_buffered)
       = Some (cv_cvtColor_BGR2BGRA (demo_frame 0))"
proof -
  let ?s = "demo_buffered\<lparr>video_seek_position := 3 / 8\<rparr>"
  have h: "\<not> stop_video ?s" "buffer_all_frames_for_fast_seek ?s"
    "\<not> (new_video_available ?s \<and> video_path ?s \<noteq> [])"
    "video_frames ?s \<noteq> []" "length (video_frames ?s) \<le> 2 ^ 53"
    "0 \<le> video_seek_position ?s" "video_seek_position ?s \<le> 1"
    by (simp_all add: demo_buffered_def Load_def)
  have r: "round (real (length (video_frames demo_buffered) - 1) * (3 / 8)) = (1::int)"
    by (simp add: demo_buffered_def round_def)
  have f: "video_frames demo_buffered ! 0 = demo_frame 0" by (simp add: demo_buffered_def)
  have run: "run demo_world [Seek (3 / 8), Tick] demo_buffered = VideoThread demo_world ?s"
    by (simp add: processVideoSeek_def split: sum.splits)
  have tick: "VideoThread demo_world ?s =
           Inr (updateImage (video_frames ?s ! current_buffered_frame (buffered_seek ?s))
                 (?s\<lparr>video_seek_position := - 1,
                    current_buffered_frame := current_buffered_frame (buffered_seek ?s) + 1\<rparr>))"
    by (rule VideoThread_buffered_seek[OF h])
  have "slot (run demo_world [Seek (3 / 8), Tick] demo_buffered)
       = Some (cv_cvtColor_BGR2BGRA (demo_frame 0))"
    unfolding run tick demo_buffered_seek_three_eighths
    by (simp add: slot_def updateImage_image f demo_frame_def Mat_empty_def)
  then show ?thesis using demo_buffered_seek_three_eighths r by simp
qed

text \<open>
  C4, amended: in buffering mode, consuming a pending seek with fraction f sets the buffer
  cursor to the integer part of the product (buffer_length - 1) * f as line 542 computes
  it, in double arithmetic, for every f in [0, 1] and every non-empty buffer (of at most
  2 ^ 53 frames, so that its size is a double). This is floor((buffer_length - 1) * f),
  or one more when the double product is rounded up to that next integer. The index is
  within the buffer, the same iteration delivers the frame at it and leaves the cursor
  one behind it, and the pending seek is cleared.
\<close>

theorem buffered_seek_truncates:
  assumes "\<not> stop_video s" "buffer_all_frames_for_fast_seek s"
    and "\<not> (new_video_available s \<and> video_path s \<noteq> [])"
    and "video_frames s \<noteq> []" "length (video_frames s) \<le> 2 ^ 53"
    and "0 \<le> video_seek_position s" "video_seek_position s \<le> 1"
  shows "current_buffered_frame (buffered_seek s)
           = nat \<lfloor>double_mul (size_to_double (length (video_frames s) - 1))
                   (video_seek_position s)\<rfloor>
       \<and> current_buffered_frame (buffered_seek s) < length (video_frames s)
       \<and> (current_buffered_frame (buffered_seek s)
             = nat \<lfloor>real (length (video_frames s) - 1) * video_seek_position s\<rfloor>
           \<or> current_buffered_frame (buffered_seek s)
               = nat \<lfloor>real (length (video_frames s) - 1) * video_seek_position s\<rfloor> + 1
             \<and> double_mul (size_to_double (length (video_frames s) - 1)) (video_seek_position s)
                 = real (current_buffered_frame (buffered_seek s)))
       \<and> VideoThread w s =
           Inr (updateImage (video_frames s ! current_buffered_frame (buffered_seek s))
                 (s\<lparr>video_seek_position := - 1,
                    current_buffered_frame := current_buffered_frame (buffered_seek s) + 1\<rparr>))"
proof -
  define m where "m = length (video_frames s) - 1"
  define f where "f = video_seek_position s"
  define d where "d = double_mul (real m) f"
  have m: "m < 2 ^ 53" using assms(4,5) by (simp add: m_def)
  have f01: "0 \<le> f" "f \<le> 1" using assms(6,7) by (simp_all add: f_def)
  have sd: "size_to_double m = real m" by (rule size_to_double_exact[OF m])
  have c: "current_buffered_frame (buffered_seek s) = nat \<lfloor>d\<rfloor>"
    using buffered_seek_tick(3)[OF assms(6,7,4,5)] by (simp only: d_def m_def f_def sd[unfolded m_def])
  have lt: "current_buffered_frame (buffered_seek s) < length (video_frames s)"
    by (rule buffered_seek_tick(2)[OF assms(6,7,4,5)])
  have x0: "0 \<le> real m * f" using f01 by simp
  have F0: "0 \<le> \<lfloor>real m * f\<rfloor>" using x0 by simp
  have lo: "\<lfloor>real m * f\<rfloor> \<le> \<lfloor>d\<rfloor>" unfolding d_def by (rule double_mul_fraction(3)[OF m f01])
  have hi: "\<lfloor>d\<rfloor> \<le> \<lfloor>real m * f\<rfloor> + 1" unfolding d_def by (rule double_mul_fraction(4)[OF m f01])
  have up: "d \<le> of_int (\<lfloor>real m * f\<rfloor> + 1)" unfolding d_def by (rule double_mul_fraction(5)[OF m f01])
  have dis: "nat \<lfloor>d\<rfloor> = nat \<lfloor>real m * f\<rfloor>
             \<or> nat \<lfloor>d\<rfloor> = nat \<lfloor>real m * f\<rfloor> + 1 \<and> d = real (nat \<lfloor>d\<rfloor>)"
  proof (cases "\<lfloor>d\<rfloor> = \<lfloor>real m * f\<rfloor>")
    case True
    then show ?thesis by simp
  next
    case False
    then have e: "\<lfloor>d\<rfloor> = \<lfloor>real m * f\<rfloor> + 1" using lo hi by linarith
    then have n: "nat \<lfloor>d\<rfloor> = nat \<lfloor>real m * f\<rfloor> + 1" using F0 by linarith
    have "of_int \<lfloor>d\<rfloor> \<le> d" by (rule of_int_floor_le)
    moreover have "d \<le> of_int \<lfloor>d\<rfloor>" using up e by simp
    ultimately have "d = of_int \<lfloor>d\<rfloor>" by linarith
    moreover have "0 \<le> \<lfloor>d\<rfloor>" using e F0 by linarith
    ultimately have "d = real (nat \<lfloor>d\<rfloor>)" by simp
    then show ?thesis using n by blast
  qed
  have tick: "VideoThread w s =
           Inr (updateImage (video_frames s ! current_buffered_frame (buffered_seek s))
                 (s\<lparr>video_seek_position := - 1,
                    current_buffered_frame := current_buffered_frame (buffered_seek s) + 1\<rparr>))"
    by (rule VideoThread_buffered_seek[OF assms])
  have c1: "current_buffered_frame (buffered_seek s)
           = nat \<lfloor>double_mul (size_to_double (length (video_frames s) - 1))
                   (video_seek_position s)\<rfloor>"
    by (rule buffered_seek_tick(3)[OF assms(6,7,4,5)])
  have c3: "current_buffered_frame (buffered_seek s)
             = nat \<lfloor>real (length (video_frames s) - 1) * video_seek_position s\<rfloor>
           \<or> current_buffered_frame (buffered_seek s)
               = nat \<lfloor>real (length (video_frames s) - 1) * video_seek_position s\<rfloor> + 1
             \<and> double_mul (size_to_double (length (video_frames s) - 1)) (video_seek_position s)
                 = real (current_buffered_frame (buffered_seek s))"
    using dis c sd unfolding d_def m_def f_def by simp
  from c1 lt c3 tick show ?thesis by blast
qed

theorem buffered_seek_truncates_witness:
  "\<not> stop_video demo_buffered_long
   \<and> video_frames demo_buffered_long \<noteq> []
   \<and> length (video_frames demo_buffered_long) = 11
   \<and> video_seek_position demo_buffered_long = 5404319552844595 / 2 ^ 54
   \<and> current_buffered_frame (buffered_seek demo_buffered_long) = 3
   \<and> nat \<lfloor>real (length (video_frames demo_buffered_long) - 1)
             * video_seek_position demo_buffered_long\<rfloor> = 2
   \<and> current_buffered_frame (buffered_seek demo_buffered_long)
       = nat \<lfloor>double_mul (size_to_double (length (video_frames demo_buffered_long) - 1))
               (video_seek_position demo_buffered_long)\<rfloor>
   \<and> current_buffered_frame (buffered_seek demo_buffered_long)
       < length (video_frames demo_buffered_long)"
proof -
  have v: "video_seek_position demo_buffered_long = 5404319552844595 / 2 ^ 54"
    by (simp add: demo_buffered_long_def double_nearest_three_tenths)
  have l: "length (video_frames demo_buffered_long) = 11"
    by (simp add: demo_buffered_long_def demo_frames_def)
  have h: "\<not> stop_video demo_buffered_long"
    "buffer_all_frames_for_fast_seek demo_buffered_long"
    "\<not> (new_video_available demo_buffered_long \<and> video_path demo_buffered_long \<noteq> [])"
    "video_frames demo_buffered_long \<noteq> []"
    "length (video_frames demo_buffered_long) \<le> 2 ^ 53"
    by (simp_all add: demo_buffered_long_def Load_def demo_frames_def)
  have h2: "0 \<le> video_seek_position demo_buffered_long"
    "video_seek_position demo_buffered_long \<le> 1"
    by (simp_all add: v)
  have e: "nat \<lfloor>real (length (video_frames demo_buffered_long) - 1)
             * video_seek_position demo_buffered_long\<rfloor> = 2"
    by (simp add: l v)
  note T = buffered_seek_truncates[OF h h2, of demo_world_long]
  from T have a: "current_buffered_frame (buffered_seek demo_buffered_long)
       = nat \<lfloor>double_mul (size_to_double (length (video_frames demo_buffered_long) - 1))
               (video_seek_position demo_buffered_long)\<rfloor>"
    by (rule conjunct1)
  from T have b: "current_buffered_frame (buffered_seek demo_buffered_long)
       < length (video_frames demo_buffered_long)"
    by (rule conjunct1[OF conjunct2])
  from h(1,4) l v demo_buffered_long_seek e a b show ?thesis by blast
qed

subsection \<open>Seek fractions out of range\<close>

text \<open>
  C2, as stated: a seek command with a fraction outside [0, 1] changes no state and
  leaves a stored pending fraction untouched, so that the next iteration still consumes
  the earlier fraction. This fails: \<^verbatim>\<open>processVideoSeek\<close> stores every value. With the
  fraction 0 pending, the command with 2 replaces it; the next iteration then delivers
  frame 1 (plain advance) and not frame 0 (the sought one).
\<close>

theorem out_of_range_seek_counterexample:
  "video_seek_position (processVideoSeek 0 demo_buffered) = 0
   \<and> video_seek_position (processVideoSeek 2 (processVideoSeek 0 demo_buffered)) = 2
   \<and> slot (run demo_world [Seek 0, Tick] demo_buffered)
       = Some (cv_cvtColor_BGR2BGRA (demo_frame 0))
   \<and> slot (run demo_world [Seek 0, Seek 2, Tick] demo_buffered)
       = Some (cv_cvtColor_BGR2BGRA (demo_frame 1))"
  by code_simp

text \<open>
  C2, amended: a seek command with a fraction outside [0, 1] is stored in place of any
  pending fraction, and no other state changes; the stored value is never consumed: an
  iteration of the playback loop does with it exactly what it does with no pending seek
  (the value -1), and leaves it stored. The range is checked when the loop consumes the
  fraction (lines 540 and 565), not when the command arrives.
\<close>

theorem out_of_range_seek_overwrites:
  assumes "v < 0 \<or> 1 < v"
  shows "video_seek_position (processVideoSeek v s) = v
       \<and> processVideoSeek v s = s\<lparr>video_seek_position := v\<rparr>
       \<and> VideoThread w (processVideoSeek v s)
           = map_sum id (\<lambda>t. t\<lparr>video_seek_position := v\<rparr>)
               (VideoThread w (s\<lparr>video_seek_position := - 1\<rparr>))"
proof -
  define t where "t = VideoThread_open w s"
  have "VideoThread w (s\<lparr>video_seek_position := v\<rparr>)
           = map_sum id (\<lambda>t. t\<lparr>video_seek_position := v\<rparr>)
               (VideoThread w (s\<lparr>video_seek_position := - 1\<rparr>))"
    unfolding VideoThread_def Let_def VideoThread_open_seek t_def[symmetric]
    by (simp add: buffered_invalid_seek[OF assms] streaming_invalid_seek[OF assms])
  then show ?thesis by (simp add: processVideoSeek_def)
qed

theorem out_of_range_seek_overwrites_witness:
  "((2::real) < 0 \<or> (1::real) < 2)
   \<and> video_seek_position (processVideoSeek 2 (processVideoSeek 0 demo_buffered)) = 2
   \<and> VideoThread demo_world (processVideoSeek 2 (processVideoSeek 0 demo_buffered))
       = map_sum id (\<lambda>t. t\<lparr>video_seek_position := 2\<rparr>)
           (VideoThread demo_world ((processVideoSeek 0 demo_buffered)\<lparr>video_seek_position := - 1\<rparr>))"
proof -
  have h: "(2::real) < 0 \<or> (1::real) < 2" by simp
  from out_of_range_seek_overwrites[OF h, of "processVideoSeek 0 demo_buffered" demo_world] h
  show ?thesis by blast
qed

subsection \<open>End of stream in streaming mode\<close>

text \<open>
  C7. In streaming mode, when the read of an iteration fails (no frame left, or an empty
  frame): with loop enabled the source at the video path is opened again, so the next
  read yields its first frame and, unless paused, the next iteration delivers that frame;
  with loop disabled playback is stopped, an all-zero frame of the display's size is
  written into the slot, and as long as no event sets a non-empty video path playback
  stays stopped and an iteration produces nothing.
\<close>

theorem streaming_end_of_stream:
  assumes "\<not> stop_video s" "\<not> buffer_all_frames_for_fast_seek s"
    and "\<not> (new_video_available s \<and> video_path s \<noteq> [])" "isOpened (cap s)"
    and "(0 \<le> video_seek_position s \<and> video_seek_position s \<le> 1) \<or> \<not> video_paused s"
    and "case fst (cap_read (cap (streaming_seek s))) of
           None \<Rightarrow> True | Some frame \<Rightarrow> Mat_empty frame"
  shows "(loop_video s \<longrightarrow>
            VideoThread w s = Inr ((streaming_seek s)\<lparr>cap := cap_open w (video_path s)\<rparr>)
          \<and> (\<forall>f fs. video_files w (video_path s) = Some (f # fs) \<and> \<not> Mat_empty f \<longrightarrow>
                fst (cap_read (cap_open w (video_path s))) = Some f
              \<and> (\<not> video_paused s \<longrightarrow>
                   (\<exists>u. run w [Tick, Tick] s = Inr u
                        \<and> image u = Some (cv_cvtColor_BGR2BGRA f) \<and> new_image_available u))))
       \<and> (\<not> loop_video s \<longrightarrow>
            (\<exists>t. VideoThread w s = Inr t \<and> stop_video t
                 \<and> image t = Some (cv_zeros (height s) (width s)) \<and> new_image_available t
                 \<and> (\<forall>es. (\<forall>e\<in>set es. \<not> sets_source e) \<longrightarrow>
                       (\<exists>u. run w es t = Inr u \<and> stop_video u \<and> VideoThread w u = Inr u))))"
proof -
  define s1 where "s1 = (streaming_seek s)\<lparr>cap := snd (cap_read (cap (streaming_seek s)))\<rparr>"
  have op: "isOpened (cap (streaming_seek s))"
    using assms(4) by (simp add: streaming_seek_def cap_set_pos_frames_def)
  have tick: "VideoThread w s = Inr (read_failed w s1)"
    using assms(1,2,4) streaming_read_fails[OF assms(5,6), of w]
    by (simp add: VideoThread_def VideoThread_open_idle[OF assms(3)] s1_def)
  show ?thesis
  proof (intro conjI impI)
    assume loop: "loop_video s"
    have rf: "read_failed w s1 = (streaming_seek s)\<lparr>cap := cap_open w (video_path s)\<rparr>"
      using loop by (simp add: read_failed_def s1_def)
    show t1: "VideoThread w s = Inr ((streaming_seek s)\<lparr>cap := cap_open w (video_path s)\<rparr>)"
      using tick rf by simp
    show "\<forall>f fs. video_files w (video_path s) = Some (f # fs) \<and> \<not> Mat_empty f \<longrightarrow>
                fst (cap_read (cap_open w (video_path s))) = Some f
              \<and> (\<not> video_paused s \<longrightarrow>
                   (\<exists>u. run w [Tick, Tick] s = Inr u
                        \<and> image u = Some (cv_cvtColor_BGR2BGRA f) \<and> new_image_available u))"
    proof (intro allI impI)
      fix f fs
      assume src: "video_files w (video_path s) = Some (f # fs) \<and> \<not> Mat_empty f"
      define t where "t = (streaming_seek s)\<lparr>cap := cap_open w (video_path s)\<rparr>"
      have co: "cap_open w (video_path s) = \<lparr>isOpened = True, source = f # fs, pos_frames = 0\<rparr>"
        using src by (simp add: cap_open_def)
      have rd: "cap_read (cap_open w (video_path s))
                  = (Some f, \<lparr>isOpened = True, source = f # fs, pos_frames = 1\<rparr>)"
        by (simp add: co cap_read_def)
      have tf: "\<not> stop_video t" "\<not> buffer_all_frames_for_fast_seek t"
        "\<not> (new_video_available t \<and> video_path t \<noteq> [])" "isOpened (cap t)"
        "cap t = cap_open w (video_path s)" "video_paused t = video_paused s"
        using assms(1,2,3) by (simp_all add: t_def co)
      have np: "(0 \<le> video_seek_position t \<and> video_seek_position t \<le> 1) = False"
        using streaming_seek_no_pending[of s] by (simp add: t_def)
      have sk: "streaming_seek t = t" by (simp add: streaming_seek_def np)
      have next_tick: "VideoThread w t = Inr (updateImage f (t\<lparr>cap := snd (cap_read (cap t))\<rparr>))"
        if "\<not> video_paused s"
        using that tf src
        by (simp add: VideoThread_def VideoThread_open_idle[OF tf(3)]
              VideoThread_streaming_def Let_def sk np rd)
      show "fst (cap_read (cap_open w (video_path s))) = Some f
              \<and> (\<not> video_paused s \<longrightarrow>
                   (\<exists>u. run w [Tick, Tick] s = Inr u
                        \<and> image u = Some (cv_cvtColor_BGR2BGRA f) \<and> new_image_available u))"
        using rd t1 next_tick src by (auto simp: t_def[symmetric] updateImage_image)
    qed
  next
    assume noloop: "\<not> loop_video s"
    define t where "t = read_failed w s1"
    have rf: "t = clearImage (s1\<lparr>stop_video := True\<rparr>)"
      using noloop by (simp add: t_def read_failed_def s1_def)
    have tf: "stop_video t" "image t = Some (cv_zeros (height s) (width s))" "new_image_available t"
      by (simp_all add: rf s1_def)
    have later: "\<exists>u. run w es t = Inr u \<and> stop_video u \<and> VideoThread w u = Inr u"
      if "\<forall>e\<in>set es. \<not> sets_source e" for es
    proof -
      from run_stopped[OF tf(1) _ that, of w] tf(2) obtain u where
        "run w es t = Inr u" "stop_video u" by auto
      then show ?thesis by (auto simp: VideoThread_stopped)
    qed
    show "\<exists>t. VideoThread w s = Inr t \<and> stop_video t
                 \<and> image t = Some (cv_zeros (height s) (width s)) \<and> new_image_available t
                 \<and> (\<forall>es. (\<forall>e\<in>set es. \<not> sets_source e) \<longrightarrow>
                       (\<exists>u. run w es t = Inr u \<and> stop_video u \<and> VideoThread w u = Inr u))"
      using tick tf later unfolding t_def[symmetric] by blast
  qed
qed

theorem streaming_end_of_stream_witness:
  "\<not> stop_video demo_stream_end \<and> isOpened (cap demo_stream_end)
   \<and> fst (cap_read (cap demo_stream_end)) = None
   \<and> VideoThread demo_world demo_stream_end
       = Inr ((streaming_seek demo_stream_end)\<lparr>cap := cap_open demo_world ''v''\<rparr>)
   \<and> (\<exists>u. run demo_world [Tick, Tick] demo_stream_end = Inr u
          \<and> image u = Some (cv_cvtColor_BGR2BGRA (demo_frame 0)))"
proof -
  have h: "\<not> stop_video demo_stream_end"
    "\<not> buffer_all_frames_for_fast_seek demo_stream_end"
    "\<not> (new_video_available demo_stream_end \<and> video_path demo_stream_end \<noteq> [])"
    "isOpened (cap demo_stream_end)"
    "(0 \<le> video_seek_position demo_stream_end \<and> video_seek_position demo_stream_end \<le> 1)
       \<or> \<not> video_paused demo_stream_end"
    by (simp_all add: demo_stream_end_def Load_def)
  have r: "fst (cap_read (cap demo_stream_end)) = None"
    by (simp add: demo_stream_end_def cap_read_def)
  have sk: "streaming_seek demo_stream_end = demo_stream_end"
    by (simp add: streaming_seek_def demo_stream_end_def Load_def)
  have e: "case fst (cap_read (cap (streaming_seek demo_stream_end))) of
             None \<Rightarrow> True | Some frame \<Rightarrow> Mat_empty frame"
    by (simp add: sk r)
  have d: "loop_video demo_stream_end" "\<not> video_paused demo_stream_end"
    "video_path demo_stream_end = ''v''"
    "video_files demo_world ''v'' = Some (demo_frame 0 # [demo_frame 1, demo_frame 2])"
    "\<not> Mat_empty (demo_frame 0)"
    by (simp_all add: demo_stream_end_def Load_def demo_world_def Mat_empty_def demo_frame_def)
  from streaming_end_of_stream[OF h e, of demo_world] h(1,4) r d show ?thesis
    by auto
qed

subsection \<open>Pause\<close>

text \<open>
  C9. While playback is paused and no new seek is issued, every sequence of loop
  iterations and render samples should leave the displayed frame unchanged. The code
  does not keep to this in buffering mode with loop disabled: the test for the end of
  the buffer (lines 547 to 556) stands before the pause test of line 558, whereas the
  streaming branch handles the end of the stream inside the pause test (lines 573 to
  588). After the three frames of the source have been delivered and sampled and
  playback has been paused, the display shows frame 2; in buffering mode the next
  iteration stops playback and clears the slot, and the next sample shows the all-zero
  frame; in streaming mode, after the same events, the display still shows frame 2.
\<close>

theorem paused_overrun_clears_display:
  "video_paused demo_paused_at_end \<and> \<not> stop_video demo_paused_at_end
   \<and> video_seek_position demo_paused_at_end = - 1
   \<and> displayed (run demo_world [Sample] demo_paused_at_end)
       = Some (cv_cvtColor_BGR2BGRA (demo_frame 2))
   \<and> displayed (run demo_world [Sample, Tick, Sample] demo_paused_at_end)
       = Some (cv_zeros 2 2)
   \<and> displayed (run demo_world
                   [SetVideoPath ''v'', Tick, Tick, Tick, SetPaused True, Sample, Tick, Sample]
                   (Load 2 2 True False False))
       = Some (cv_zeros 2 2)
   \<and> displayed (run demo_world
                   [SetVideoPath ''v'', Tick, Tick, Tick, SetPaused True, Sample, Tick, Sample]
                   (Load 2 2 False False False))
       = Some (cv_cvtColor_BGR2BGRA (demo_frame 2))"
  by code_simp

text \<open>
  In every other paused state the pause test holds the frame: with no fraction in [0, 1]
  pending and no newly set source waiting to be opened, iterations and samples leave the
  slot as it is, and after a first sample the texture too.
\<close>

lemma paused_display_is_stable:
  assumes "video_paused s" "\<not> stop_video s"
    and "\<not> (0 \<le> video_seek_position s \<and> video_seek_position s \<le> 1)"
    and "\<not> (new_video_available s \<and> video_path s \<noteq> [])"
    and "\<not> (buffer_all_frames_for_fast_seek s \<and> video_frames s \<noteq> []
            \<and> length (video_frames s) \<le> current_buffered_frame s \<and> \<not> loop_video s)"
    and "\<forall>e\<in>set es. e = Tick \<or> e = Sample"
    and "UpdateChild s = Inr t"
  shows "\<exists>u. run w es t = Inr u \<and> texture u = texture t \<and> image u = image s
            \<and> video_paused u \<and> \<not> stop_video u"
proof -
  have ps: "paused_steady s" using assms(1-5) by (simp add: paused_steady_def)
  have t: "paused_steady t" "\<not> new_image_available t" "image t = image s"
    using paused_steady_sampled[OF ps assms(7)] by simp_all
  from paused_run[OF t(1,2) assms(6), of w] t(3) show ?thesis
    by (auto simp: paused_steady_def)
qed

lemma paused_display_is_stable_example:
  "video_paused (demo_paused_at_end\<lparr>loop_video := True, new_image_available := True\<rparr>)
   \<and> \<not> stop_video (demo_paused_at_end\<lparr>loop_video := True, new_image_available := True\<rparr>)
   \<and> (\<exists>t. UpdateChild (demo_paused_at_end\<lparr>loop_video := True, new_image_available := True\<rparr>) = Inr t
        \<and> (\<exists>u. run demo_world [Tick, Sample, Tick, Tick, Sample] t = Inr u
              \<and> texture u = texture t
              \<and> image u = Some (cv_cvtColor_BGR2BGRA (demo_frame 2))))"
proof -
  let ?s = "demo_paused_at_end\<lparr>loop_video := True, new_image_available := True\<rparr>"
  define t where "t = (render (cv_cvtColor_BGR2BGRA (demo_frame 2)) ?s)\<lparr>new_image_available := False\<rparr>"
  have h: "video_paused ?s" "\<not> stop_video ?s"
    "\<not> (0 \<le> video_seek_position ?s \<and> video_seek_position ?s \<le> 1)"
    "\<not> (new_video_available ?s \<and> video_path ?s \<noteq> [])"
    "\<not> (buffer_all_frames_for_fast_seek ?s \<and> video_frames ?s \<noteq> []
            \<and> length (video_frames ?s) \<le> current_buffered_frame ?s \<and> \<not> loop_video ?s)"
    by (simp_all add: demo_paused_at_end_def Load_def)
  have e: "\<forall>e\<in>set [Tick, Sample, Tick, Tick, Sample]. e = Tick \<or> e = Sample" by simp
  have i: "image ?s = Some (cv_cvtColor_BGR2BGRA (demo_frame 2))"
    by (simp add: demo_paused_at_end_def)
  have u: "UpdateChild ?s = Inr t"
    by (simp add: UpdateChild_def i t_def)
  from paused_display_is_stable[OF h e u, of demo_world] h(1,2) u i show ?thesis
    by auto
qed

subsection \<open>Frame delivery\<close>

text \<open>
  C3, as stated: every frame produced by an iteration of the playback loop, in streaming
  and in buffering mode, is resized to the configured height and width before it is
  written into the slot, so that the frame in the slot always has the display's size.
  This fails in streaming mode: \<^verbatim>\<open>updateImage\<close> converts the colours and does not resize.
  With a display of 4 by 4 and a source of 2 by 2 frames, the slot holds a frame of 2 by
  2 after the first iteration.
\<close>

theorem streaming_slot_counterexample:
  "slot (run demo_world [SetVideoPath ''v'', Tick] (Load 4 4 False False False))
     = Some \<lparr>rows = 2, cols = 2, channels = 4, pixels = Picture 0\<rparr>
   \<and> height (Load 4 4 False False False) = 4 \<and> width (Load 4 4 False False False) = 4"
  by code_simp

text \<open>
  C3, amended: every frame an iteration of the playback loop writes into the slot has
  four channels (BGRA) and is marked dirty. It has the configured height and width in
  the slot when it comes from the buffer (buffering mode, frames resized when buffered);
  a frame read in streaming mode is in the slot at the size of the source. In both
  modes the render sample resizes the frame if its size differs (\<^verbatim>\<open>VideoVisual::render\<close>),
  so the frame copied into the texture always has the configured height and width.
\<close>

theorem frame_delivery:
  assumes "VideoThread w s = Inr t"
    and "\<forall>f\<in>set (video_frames s). rows f = height s \<and> cols f = width s"
  shows "(image t = image s \<and> new_image_available t = new_image_available s)
       \<or> (\<exists>m. image t = Some m \<and> new_image_available t \<and> channels m = 4
             \<and> (buffer_all_frames_for_fast_seek s \<and> video_frames (VideoThread_open w s) \<noteq> []
                  \<longrightarrow> rows m = height s \<and> cols m = width s)
             \<and> (\<exists>u. UpdateChild t = Inr u
                    \<and> texture u = (if rows m \<noteq> height s \<or> cols m \<noteq> width s
                                   then cv_resize m (width s) (height s) else m)
                    \<and> rows (texture u) = height s \<and> cols (texture u) = width s
                    \<and> pixels (texture u) = pixels m))"
proof -
  define s1 where "s1 = VideoThread_open w s"
  define b where "b = (buffer_all_frames_for_fast_seek s \<and> video_frames s1 \<noteq> [])"
  have hw1: "height s1 = height s" "width s1 = width s"
    "buffer_all_frames_for_fast_seek s1 = buffer_all_frames_for_fast_seek s"
    by (simp_all add: s1_def VideoThread_open_fields)
  have hw: "height t = height s" "width t = width s"
    using VideoThread_dims[OF assms(1)] by simp_all
  have o: "slot_kept s s1 \<or> slot_holds True (height s) (width s) s1"
    unfolding s1_def by (rule VideoThread_open_slot)
  have fr: "\<forall>f\<in>set (video_frames s1). rows f = height s1 \<and> cols f = width s1"
    using VideoThread_open_frames[OF assms(2), of w] by (simp add: s1_def[symmetric] hw1)
  have main: "slot_kept s t \<or> slot_holds b (height s) (width s) t"
  proof (cases "stop_video s")
    case True
    then show ?thesis using assms(1) by (simp add: VideoThread_stopped slot_kept_def)
  next
    case False
    have br: "(b \<and> VideoThread_buffered s1 = Inr t)
              \<or> (\<not> b \<and> t = VideoThread_streaming w s1) \<or> (\<not> b \<and> t = s1)"
      using assms(1) False unfolding VideoThread_def Let_def s1_def[symmetric] b_def hw1(3)[symmetric]
      by (auto split: if_splits)
    have step: "slot_kept s1 t \<or> slot_holds b (height s) (width s) t"
    proof -
      from br consider "b" "VideoThread_buffered s1 = Inr t"
        | "\<not> b" "t = VideoThread_streaming w s1" | "t = s1" by blast
      then show ?thesis
      proof cases
        case 1
        from VideoThread_buffered_slot[OF 1(2) fr] show ?thesis
          using slot_holds_weaken[of "height s" "width s" t b] by (auto simp: hw1)
      next
        case 2
        from VideoThread_streaming_slot[of s1 w] show ?thesis
          using 2 by (auto simp: hw1)
      next
        case 3
        then show ?thesis by (simp add: slot_kept_def)
      qed
    qed
    from step show ?thesis
    proof
      assume k: "slot_kept s1 t"
      from o show ?thesis
      proof
        assume "slot_kept s s1"
        then show ?thesis using k by (simp add: slot_kept_def)
      next
        assume "slot_holds True (height s) (width s) s1"
        then have "slot_holds True (height s) (width s) t"
          using k slot_holds_cong[of t s1 True "height s" "width s"] by (simp add: slot_kept_def)
        then show ?thesis using slot_holds_weaken by blast
      qed
    next
      assume "slot_holds b (height s) (width s) t"
      then show ?thesis ..
    qed
  qed
  from main show ?thesis
  proof
    assume "slot_kept s t"
    then show ?thesis by (simp add: slot_kept_def)
  next
    assume "slot_holds b (height s) (width s) t"
    from slot_holds_sample[OF this] show ?thesis
      unfolding hw b_def s1_def by blast
  qed
qed

theorem frame_delivery_witness:
  "list_all (\<lambda>f. rows f = 2 \<and> cols f = 2) (video_frames demo_buffered)
   \<and> (\<exists>t. VideoThread demo_world demo_buffered = Inr t
          \<and> (\<exists>m. image t = Some m \<and> channels m = 4 \<and> rows m = 2 \<and> cols m = 2
                 \<and> (\<exists>u. UpdateChild t = Inr u
                        \<and> rows (texture u) = 2 \<and> cols (texture u) = 2
                        \<and> pixels (texture u) = pixels m)))"
proof -
  define t where "t = updateImage (demo_frame 1) (demo_buffered\<lparr>current_buffered_frame := 2\<rparr>)"
  have tick: "VideoThread demo_world demo_buffered = Inr t"
    unfolding t_def by code_simp
  have d: "height demo_buffered = 2" "width demo_buffered = 2"
    "buffer_all_frames_for_fast_seek demo_buffered"
    "video_frames (VideoThread_open demo_world demo_buffered) \<noteq> []"
    by (simp_all add: demo_buffered_def Load_def VideoThread_open_def)
  have fr: "\<forall>f\<in>set (video_frames demo_buffered).
              rows f = height demo_buffered \<and> cols f = width demo_buffered"
    by (simp add: demo_buffered_def Load_def demo_frame_def)
  have ne: "image t \<noteq> image demo_buffered"
    by (simp add: t_def updateImage_image demo_buffered_def demo_frame_def Mat_empty_def
          cv_cvtColor_BGR2BGRA_def)
  have la: "list_all (\<lambda>f. rows f = 2 \<and> cols f = 2) (video_frames demo_buffered)"
    by (simp add: demo_buffered_def demo_frame_def)
  from frame_delivery[OF tick fr] ne d la tick show ?thesis
    by auto
qed

end
